theory Spec2Isabelle
  imports Complex_Main "HOL-Library.Sublist" "HOL-Library.Extended_Nat"
    "HOL-Library.Product_Lexorder" "HOL-Library.Log_Nat"
begin

section \<open>Rating normalizer (GTI/code/scrape\_bond\_data.py)\<close>

text \<open>
  Python strings are modelled as \<open>string\<close>, one \<open>char\<close> per code point below 256.
  Python numbers are modelled exactly: the integer scores of the tables as \<open>int\<close>, the
  value \<open>base_numeric + upgrade_modifier\<close> as a rational (\<open>1/3\<close> is the exact third, not
  its nearest double). A function that returns \<open>None\<close> or a number returns an \<open>option\<close>.
\<close>

subsection \<open>The three rating dictionaries\<close>

text \<open>
  A dictionary literal is kept as the list of its items, in source order; the dictionary
  handed to \<open>convert_rating_to_numeric\<close> is \<open>map_of\<close> of that list.
\<close>

definition SP_RATINGS :: "(string \<times> int) list" where
  "SP_RATINGS =
    [(''AAA'', 22), (''AA+'', 21), (''AA'', 20), (''AA-'', 19),
     (''A+'', 18), (''A'', 17), (''A-'', 16),
     (''BBB+'', 15), (''BBB'', 14), (''BBB-'', 13),
     (''BB+'', 12), (''BB'', 11), (''BB-'', 10),
     (''B+'', 9), (''B'', 8), (''B-'', 7),
     (''CCC+'', 6), (''CCC'', 5), (''CCC-'', 4),
     (''CC'', 3), (''C'', 2), (''D'', 1)]"

definition MOODYS_RATINGS :: "(string \<times> int) list" where
  "MOODYS_RATINGS =
    [(''Aaa'', 22), (''Aa1'', 21), (''Aa2'', 20), (''Aa3'', 19),
     (''A1'', 18), (''A2'', 17), (''A3'', 16),
     (''Baa1'', 15), (''Baa2'', 14), (''Baa3'', 13),
     (''Ba1'', 12), (''Ba2'', 11), (''Ba3'', 10),
     (''B1'', 9), (''B2'', 8), (''B3'', 7),
     (''Caa1'', 6), (''Caa2'', 5), (''Caa3'', 4),
     (''Ca'', 3), (''C'', 1)]"

definition FITCH_RATINGS :: "(string \<times> int) list" where
  "FITCH_RATINGS =
    [(''AAA'', 22), (''AA+'', 21), (''AA'', 20), (''AA-'', 19),
     (''A+'', 18), (''A'', 17), (''A-'', 16),
     (''BBB+'', 15), (''BBB'', 14), (''BBB-'', 13),
     (''BB+'', 12), (''BB'', 11), (''BB-'', 10),
     (''B+'', 9), (''B'', 8), (''B-'', 7),
     (''CCC+'', 6), (''CCC'', 5), (''CCC-'', 4),
     (''CC'', 3), (''C'', 2), (''D'', 1)]"

subsection \<open>String primitives of Python used by the normalizer\<close>

text \<open>\<open>sub in s\<close>: some suffix of \<open>s\<close> starts with \<open>sub\<close>.\<close>

fun str_contains :: "string \<Rightarrow> string \<Rightarrow> bool" where
  "str_contains sub [] = (sub = [])"
| "str_contains sub (c # cs) = (prefix sub (c # cs) \<or> str_contains sub cs)"

text \<open>
  \<open>s.replace(old, new)\<close>: the occurrences of \<open>old\<close> are found from the left and do not
  overlap. With an empty \<open>old\<close>, Python puts \<open>new\<close> before every character and at the end.
\<close>

function replace_from_left :: "string \<Rightarrow> string \<Rightarrow> string \<Rightarrow> string" where
  "replace_from_left old new [] = []"
| "replace_from_left old new (c # cs) =
     (if old \<noteq> [] \<and> prefix old (c # cs)
      then new @ replace_from_left old new (drop (length old) (c # cs))
      else c # replace_from_left old new cs)"
  by pat_completeness auto
termination
  by (relation "measure (\<lambda>(old, new, s). length s)") (auto simp: neq_Nil_conv)

definition py_replace :: "string \<Rightarrow> string \<Rightarrow> string \<Rightarrow> string" where
  "py_replace old new s =
     (if old = [] then new @ concat (map (\<lambda>c. c # new) s)
      else replace_from_left old new s)"

text \<open>
  \<open>s.strip()\<close> removes the characters for which \<open>str.isspace\<close> holds from both ends;
  below 256 these are the code points 9 to 13, 28 to 32, 133 and 160.
\<close>

definition py_isspace :: "char \<Rightarrow> bool" where
  "py_isspace c =
     ((of_char c :: nat) \<in> set [9, 10, 11, 12, 13, 28, 29, 30, 31, 32, 133, 160])"

definition py_strip :: "string \<Rightarrow> string" where
  "py_strip s = rev (dropWhile py_isspace (rev (dropWhile py_isspace s)))"

subsection \<open>The pattern \<open>([A-Za-z]{1,3}[\+\-]?[123]?)\<close>\<close>

text \<open>
  Every quantifier of the pattern is greedy and everything after the first letter is
  optional, so at a given start position the match takes as many letters as there are, up
  to three, then a sign if one follows, then a digit 1 to 3 if one follows; it fails only
  when the position holds no letter. \<open>re.search\<close> tries the start positions from the left.
\<close>

definition is_ascii_letter :: "char \<Rightarrow> bool" where
  "is_ascii_letter c =
     (let n = (of_char c :: nat) in (65 \<le> n \<and> n \<le> 90) \<or> (97 \<le> n \<and> n \<le> 122))"

definition is_sign :: "char \<Rightarrow> bool" where
  "is_sign c = (c = CHR ''+'' \<or> c = CHR ''-'')"

definition is_digit123 :: "char \<Rightarrow> bool" where
  "is_digit123 c = (c = CHR ''1'' \<or> c = CHR ''2'' \<or> c = CHR ''3'')"

fun take_letters :: "nat \<Rightarrow> string \<Rightarrow> string" where
  "take_letters 0 s = []"
| "take_letters (Suc n) [] = []"
| "take_letters (Suc n) (c # cs) = (if is_ascii_letter c then c # take_letters n cs else [])"

fun opt_char :: "(char \<Rightarrow> bool) \<Rightarrow> string \<Rightarrow> string" where
  "opt_char P [] = []"
| "opt_char P (c # cs) = (if P c then [c] else [])"

definition match_rating_at :: "string \<Rightarrow> string option" where
  "match_rating_at s =
     (let letters = take_letters 3 s in
      if letters = [] then None
      else let r1 = drop (length letters) s;
               sign = opt_char is_sign r1;
               r2 = drop (length sign) r1;
               digit = opt_char is_digit123 r2
           in Some (letters @ sign @ digit))"

fun re_search_rating :: "string \<Rightarrow> string option" where
  "re_search_rating [] = None"
| "re_search_rating (c # cs) =
     (case match_rating_at (c # cs) of
        Some m \<Rightarrow> Some m
      | None \<Rightarrow> re_search_rating cs)"

subsection \<open>\<open>extract_base_rating\<close> and \<open>convert_rating_to_numeric\<close>\<close>

definition extract_base_rating :: "string \<Rightarrow> string" where
  "extract_base_rating rating_text =
     (if rating_text = [] \<or> rating_text \<in> set [''N/A'', ''-'', '''', ''NR''] then ''N/A''
      else
        let clean_rating =
              py_strip (py_replace ''    [downgrade]'' ''''
                         (py_replace ''    [upgrade]'' '''' rating_text))
        in if clean_rating \<in> set [''SD'', ''RD''] then ''D''
           else case re_search_rating clean_rating of
                  Some m \<Rightarrow> m
                | None \<Rightarrow> clean_rating)"

definition upgrade_modifier :: "string \<Rightarrow> rat" where
  "upgrade_modifier rating_text =
     (if str_contains ''    [upgrade]'' rating_text \<or> str_contains ''[upgrade]'' rating_text
      then 1 / 3
      else if str_contains ''    [downgrade]'' rating_text
              \<or> str_contains ''[downgrade]'' rating_text
      then - (1 / 3)
      else 0)"

definition convert_rating_to_numeric :: "string \<Rightarrow> (string \<rightharpoonup> int) \<Rightarrow> rat option" where
  "convert_rating_to_numeric rating_text rating_dict =
     (if rating_text = [] then None
      else
        let base_rating = extract_base_rating rating_text
        in if base_rating = ''N/A'' then None
           else case rating_dict base_rating of
                  None \<Rightarrow> None
                | Some base_numeric \<Rightarrow>
                    Some (of_int base_numeric + upgrade_modifier rating_text))"

subsection \<open>Average rating and grade category\<close>

text \<open>
  \<open>scrape_credit_ratings\<close> computes \<open>Average_Rating\<close> of a row as
  \<open>df[numeric_cols].mean(axis=1, skipna=True).round(2)\<close>. In pandas a missing value of a
  numeric column is NaN; the value \<open>None\<close> of the normalizer becomes that marker, and
  \<open>pd.isna\<close> recognises it. Here the marker is \<open>None\<close>. The row mean with
  \<open>skipna=True\<close> is the mean of the values that are present, and missing when none is.
  The rounding to two decimals is taken as a parameter \<open>round2\<close>; a missing value stays
  missing under it.
\<close>

definition mean_skipna :: "rat option list \<Rightarrow> rat option" where
  "mean_skipna vs =
     (let present = List.map_filter (\<lambda>v. v) vs
      in if present = [] then None
         else Some (sum_list present / of_nat (length present)))"

definition average_rating ::
  "(rat \<Rightarrow> rat) \<Rightarrow> rat option \<Rightarrow> rat option \<Rightarrow> rat option \<Rightarrow> rat option" where
  "average_rating round2 sp_numeric moodys_numeric fitch_numeric =
     map_option round2 (mean_skipna [sp_numeric, moodys_numeric, fitch_numeric])"

text \<open>
  \<open>RATING_GRADES\<close> of generate\_ratings\_table.py, with the \<open>range\<close> entry of each grade
  (the only entry that \<open>categorize_by_average_rating\<close> reads), in the order of the
  dictionary literal, which is the order of iteration.
\<close>

definition RATING_GRADES :: "(string \<times> rat \<times> rat) list" where
  "RATING_GRADES =
    [(''Prime'', (22, 22)),
     (''High Medium Grade'', (19, 21)),
     (''Upper Medium Grade'', (16, 18)),
     (''Lower Medium Grade'', (13, 15)),
     (''Speculative'', (10, 12)),
     (''Highly Speculative'', (7, 9)),
     (''Substantial Risk'', (4, 6)),
     (''Extremely Speculative'', (2, 3)),
     (''In Default'', (1, 1))]"

fun first_grade_in_range :: "(string \<times> rat \<times> rat) list \<Rightarrow> rat \<Rightarrow> string" where
  "first_grade_in_range [] avg_rating = ''No Rating''"
| "first_grade_in_range ((grade, (min_val, max_val)) # rest) avg_rating =
     (if min_val \<le> avg_rating \<and> avg_rating \<le> max_val then grade
      else first_grade_in_range rest avg_rating)"

definition categorize_by_average_rating :: "rat option \<Rightarrow> string" where
  "categorize_by_average_rating avg_rating =
     (case avg_rating of
        None \<Rightarrow> ''No Rating''
      | Some a \<Rightarrow> first_grade_in_range RATING_GRADES a)"

section \<open>Floating-point numbers (Code/visualize\_bond\_data.py)\<close>

text \<open>
  The coordinates of the plots are Python floats, that is IEEE 754 binary64 numbers, and
  the loops that place the labels compare sums and differences of them with literals such
  as \<open>0.8\<close>: the rounding of each operation decides these comparisons. A float is
  modelled by the rational number it denotes. \<open>round_double\<close> maps a rational to the
  nearest number with a significand of 53 bits, a tie going to the even significand. An
  arithmetic operation of the source is the exact operation followed by \<open>round_double\<close>,
  and a decimal literal of the source is \<open>round_double\<close> of its decimal value. Comparisons
  and \<open>abs\<close> are exact on floats.

  The exponent is not bounded here: overflow to infinity (magnitudes from \<open>2^1024\<close>) and
  gradual underflow (magnitudes below \<open>2^-1022\<close>) are not modelled, and neither is NaN;
  both functions leave out the rows with a NaN before the loops, and the coordinates are
  bond spreads and ratings.
\<close>

text \<open>Round to the nearest integer, a tie to the even one.\<close>

definition round_half_even :: "rat \<Rightarrow> int" where
  "round_half_even q =
     (let f = \<lfloor>q\<rfloor>; r = q - of_int f
      in if r < 1 / 2 then f else if 1 / 2 < r then f + 1 else if even f then f else f + 1)"

text \<open>
  For \<open>z > 0\<close>, the exponent \<open>e\<close> with \<open>2^e \<le> z < 2^(e+1)\<close>; \<open>bitlen\<close> is the number of
  binary digits of a positive integer.
\<close>

definition binade :: "rat \<Rightarrow> int" where
  "binade z = (if 1 \<le> z then bitlen \<lfloor>z\<rfloor> - 1 else - bitlen (\<lceil>1 / z\<rceil> - 1))"

text \<open>\<open>q\<close> times \<open>2^e\<close>.\<close>

definition scale_pow2 :: "int \<Rightarrow> rat \<Rightarrow> rat" where
  "scale_pow2 e q = (if 0 \<le> e then q * 2 ^ nat e else q / 2 ^ nat (- e))"

text \<open>
  A positive \<open>z\<close> in the binade \<open>e\<close> is rounded to a multiple of \<open>2^(e-52)\<close>, the spacing
  of the floats there.
\<close>

definition round_pos :: "rat \<Rightarrow> rat" where
  "round_pos z =
     (let e = binade z - 52
      in scale_pow2 e (of_int (round_half_even (scale_pow2 (- e) z))))"

definition round_double :: "rat \<Rightarrow> rat" where
  "round_double z = (if z = 0 then 0 else if z < 0 then - round_pos (- z) else round_pos z)"

definition fadd :: "rat \<Rightarrow> rat \<Rightarrow> rat" where
  "fadd a b = round_double (a + b)"

definition fsub :: "rat \<Rightarrow> rat \<Rightarrow> rat" where
  "fsub a b = round_double (a - b)"

definition fmul :: "rat \<Rightarrow> rat \<Rightarrow> rat" where
  "fmul a b = round_double (a * b)"

section \<open>Label placement (Code/visualize\_bond\_data.py)\<close>

text \<open>
  Both plotting functions build \<open>country_data\<close>, a list of tuples
  \<open>(x, y, ctry, code)\<close> whose \<open>x\<close> and \<open>y\<close> are floats (rows with a NaN are left out
  before), sort it, and then run a loop that appends one pair \<open>(lx, ly)\<close> to
  \<open>used_positions\<close> for each tuple. The additions, subtractions and the multiplication of
  the loops are the float operations \<open>fadd\<close>, \<open>fsub\<close> and \<open>fmul\<close>; the literals
  \<open>0.8\<close>, \<open>0.6\<close>, \<open>1.5\<close>, \<open>13.8\<close> and \<open>22.5\<close> are the floats nearest to them, and \<open>50\<close>
  and \<open>40\<close> are integers. The drawing calls of the loop body do not touch
  \<open>used_positions\<close> and are left out.
\<close>

type_synonym country_item = "rat \<times> rat \<times> string \<times> string"
type_synonym position = "rat \<times> rat"

subsection \<open>The loop over \<open>country_data\<close>\<close>

text \<open>
  The loop \<open>for x, y, ctry, code in country_data\<close> is the same in both functions except
  for the overlap check in its body, which is the parameter \<open>adjust\<close>: it receives
  \<open>lx\<close>, the initial \<open>ly\<close> and the positions used so far, and returns the final \<open>ly\<close>.
\<close>

fun place_labels ::
  "(rat \<Rightarrow> rat \<Rightarrow> position list \<Rightarrow> rat) \<Rightarrow> rat \<Rightarrow> position list \<Rightarrow> country_item list
     \<Rightarrow> position list" where
  "place_labels adjust label_dx used_positions [] = used_positions"
| "place_labels adjust label_dx used_positions ((x, y, ctry, code) # rest) =
     (let lx = fadd x label_dx;
          ly = adjust lx y used_positions
      in place_labels adjust label_dx (used_positions @ [(lx, ly)]) rest)"

subsection \<open>\<open>create_full_plot\<close>\<close>

definition full_min_distance :: rat where
  "full_min_distance = round_double 0.8"

text \<open>
  The inner loop \<open>for used_x, used_y in used_positions\<close>: it has no \<open>break\<close>, so every
  used position is compared with the current \<open>ly\<close>, which earlier iterations may have
  changed.
\<close>

fun adjust_full :: "rat \<Rightarrow> rat \<Rightarrow> position list \<Rightarrow> rat" where
  "adjust_full lx ly [] = ly"
| "adjust_full lx ly ((used_x, used_y) # rest) =
     (if \<bar>fsub lx used_x\<bar> < 50 then
        (if \<bar>fsub ly used_y\<bar> < full_min_distance then
           (if ly \<ge> used_y then adjust_full lx (fadd used_y full_min_distance) rest
            else adjust_full lx (fsub used_y full_min_distance) rest)
         else adjust_full lx ly rest)
      else adjust_full lx ly rest)"

definition create_full_plot_labels :: "rat \<Rightarrow> country_item list \<Rightarrow> position list" where
  "create_full_plot_labels label_dx country_data =
     place_labels adjust_full label_dx [] (sort_key (\<lambda>item. fst item) country_data)"

text \<open>
  The number of used positions that a position \<open>candidate\<close> would collide with, counted
  with the window and the distance of \<open>create_full_plot\<close>. The source of that function
  computes no such count; the definition follows the wording of the specification
  (``resulting collisions against already-placed labels'') and serves to compare it with
  what \<open>adjust_full\<close> returns.
\<close>

definition full_overlap :: "rat \<Rightarrow> rat \<Rightarrow> position list \<Rightarrow> nat" where
  "full_overlap lx candidate used_positions =
     length (filter (\<lambda>(ux, uy). \<bar>fsub lx ux\<bar> < 50 \<and> \<bar>fsub candidate uy\<bar> < full_min_distance)
               used_positions)"

subsection \<open>\<open>create_investment_grade_plot\<close>\<close>

definition ig_min_distance :: rat where
  "ig_min_distance = round_double 0.6"

definition ig_in_bounds :: "rat \<Rightarrow> bool" where
  "ig_in_bounds candidate = (round_double 13.8 \<le> candidate \<and> candidate \<le> round_double 22.5)"

text \<open>
  \<open>sum(1 for ux, uy in used_positions if abs(lx - ux) < 40 and
  abs(candidate - uy) < min_distance)\<close>
\<close>

definition ig_overlap :: "rat \<Rightarrow> rat \<Rightarrow> position list \<Rightarrow> nat" where
  "ig_overlap lx candidate used_positions =
     length (filter (\<lambda>(ux, uy). \<bar>fsub lx ux\<bar> < 40 \<and> \<bar>fsub candidate uy\<bar> < ig_min_distance)
               used_positions)"

text \<open>
  The loop \<open>for candidate in candidates\<close> with its state \<open>(best_ly, min_overlap)\<close>;
  \<open>min_overlap\<close> starts at \<open>float('inf')\<close>, the \<open>\<infinity>\<close> of the extended naturals.
\<close>

fun best_candidate ::
  "rat \<Rightarrow> position list \<Rightarrow> rat list \<Rightarrow> rat \<times> enat \<Rightarrow> rat \<times> enat" where
  "best_candidate lx used_positions [] (best_ly, min_overlap) = (best_ly, min_overlap)"
| "best_candidate lx used_positions (candidate # rest) (best_ly, min_overlap) =
     (if ig_in_bounds candidate then
        (let overlap = ig_overlap lx candidate used_positions
         in if enat overlap < min_overlap
            then best_candidate lx used_positions rest (candidate, enat overlap)
            else best_candidate lx used_positions rest (best_ly, min_overlap))
      else best_candidate lx used_positions rest (best_ly, min_overlap))"

text \<open>
  \<open>[used_y + min_distance, used_y - min_distance, used_y + min_distance * 1.5,
  used_y - min_distance * 1.5]\<close>: the product is rounded before the sum.
\<close>

definition ig_candidates :: "rat \<Rightarrow> rat list" where
  "ig_candidates used_y =
     [fadd used_y ig_min_distance,
      fsub used_y ig_min_distance,
      fadd used_y (fmul ig_min_distance (round_double 1.5)),
      fsub used_y (fmul ig_min_distance (round_double 1.5))]"

text \<open>
  The loop \<open>for used_x, used_y in used_positions\<close> with its \<open>break\<close>: the first used
  position that is close in both directions decides, and the scan stops there. The
  third argument is the whole of \<open>used_positions\<close> (the overlap count reads it), the
  fourth the part still to be scanned.
\<close>

fun adjust_ig_scan :: "rat \<Rightarrow> rat \<Rightarrow> position list \<Rightarrow> position list \<Rightarrow> rat" where
  "adjust_ig_scan lx ly used_positions [] = ly"
| "adjust_ig_scan lx ly used_positions ((used_x, used_y) # rest) =
     (if \<bar>fsub lx used_x\<bar> < 40 \<and> \<bar>fsub ly used_y\<bar> < ig_min_distance
      then fst (best_candidate lx used_positions (ig_candidates used_y) (ly, \<infinity>))
      else adjust_ig_scan lx ly used_positions rest)"

definition adjust_ig :: "rat \<Rightarrow> rat \<Rightarrow> position list \<Rightarrow> rat" where
  "adjust_ig lx ly used_positions = adjust_ig_scan lx ly used_positions used_positions"

definition create_investment_grade_plot_labels ::
  "rat \<Rightarrow> country_item list \<Rightarrow> position list" where
  "create_investment_grade_plot_labels label_dx country_data =
     place_labels adjust_ig label_dx []
       (sort_key (\<lambda>item. (fst item, fst (snd item))) country_data)"

section \<open>Properties of the rating normalizer\<close>

lemmas normalizer_defs =
  convert_rating_to_numeric_def extract_base_rating_def upgrade_modifier_def
  py_replace_def py_strip_def py_isspace_def
  match_rating_at_def is_ascii_letter_def is_sign_def is_digit123_def

text \<open>
  Claim C1. Under the S&P table the normalizer gives 22 for \<open>AAA\<close>, 15 + 1/3 for
  \<open>BBB+\<close> followed by the upgrade tag, 1 for \<open>SD\<close> and no score for \<open>N/A\<close>; under
  any table it gives no score for the empty string.
\<close>

theorem normalizer_examples:
  "convert_rating_to_numeric ''AAA'' (map_of SP_RATINGS) = Some 22
   \<and> convert_rating_to_numeric ''BBB+    [upgrade]'' (map_of SP_RATINGS) = Some (15 + 1 / 3)
   \<and> convert_rating_to_numeric ''SD'' (map_of SP_RATINGS) = Some 1
   \<and> convert_rating_to_numeric ''N/A'' (map_of SP_RATINGS) = None
   \<and> convert_rating_to_numeric '''' any_table = None"
  by (simp add: normalizer_defs SP_RATINGS_def Let_def numeral_3_eq_3)

lemma distinct_snd_key_eq:
  "distinct (map snd T) \<Longrightarrow> (k, v) \<in> set T \<Longrightarrow> (k', v) \<in> set T \<Longrightarrow> k = k'"
  by (induction T) (auto simp: image_iff)

lemma tables_distinct_scores:
  "distinct (map snd SP_RATINGS)" "distinct (map snd MOODYS_RATINGS)"
  "distinct (map snd FITCH_RATINGS)"
  by (simp_all add: SP_RATINGS_def MOODYS_RATINGS_def FITCH_RATINGS_def)

lemma tables_score_range:
  "list_all (\<lambda>(k, v). 1 \<le> v \<and> v \<le> 22) SP_RATINGS"
  "list_all (\<lambda>(k, v). 1 \<le> v \<and> v \<le> 22) MOODYS_RATINGS"
  "list_all (\<lambda>(k, v). 1 \<le> v \<and> v \<le> 22) FITCH_RATINGS"
  by (simp_all add: SP_RATINGS_def MOODYS_RATINGS_def FITCH_RATINGS_def)

text \<open>
  Claim C3. In each of the three tables every key maps to an integer from 1 to 22 and no
  two keys map to the same integer. The table of Moody's has no key \<open>CC\<close> and no key
  \<open>D\<close>, and the integer 2 (the level between \<open>Ca\<close> and \<open>C\<close>) is given to no key.
\<close>

theorem rating_tables_range_injective:
  assumes T: "T \<in> {SP_RATINGS, MOODYS_RATINGS, FITCH_RATINGS}"
  shows "(map_of T k = Some v \<longrightarrow> 1 \<le> v \<and> v \<le> 22)
     \<and> (map_of T k = Some v \<and> map_of T k' = Some v \<longrightarrow> k = k')
     \<and> map_of MOODYS_RATINGS ''CC'' = None \<and> map_of MOODYS_RATINGS ''D'' = None
     \<and> map_of MOODYS_RATINGS m \<noteq> Some 2"
proof -
  have d: "distinct (map snd T)" and r: "list_all (\<lambda>(k, v). 1 \<le> v \<and> v \<le> 22) T"
    using T tables_distinct_scores tables_score_range by auto
  have 1: "map_of T k = Some v \<longrightarrow> 1 \<le> v \<and> v \<le> 22"
    using r by (auto simp: list_all_iff dest!: map_of_SomeD)
  have 2: "map_of T k = Some v \<and> map_of T k' = Some v \<longrightarrow> k = k'"
    using distinct_snd_key_eq [OF d] by (auto dest!: map_of_SomeD)
  have 3: "map_of MOODYS_RATINGS ''CC'' = None" "map_of MOODYS_RATINGS ''D'' = None"
    by (simp_all add: MOODYS_RATINGS_def)
  have "2 \<notin> snd ` set MOODYS_RATINGS" by (simp add: MOODYS_RATINGS_def)
  then have 4: "map_of MOODYS_RATINGS m \<noteq> Some 2"
    by (metis map_of_SomeD image_eqI snd_conv)
  from 1 2 3 4 show ?thesis by blast
qed

theorem rating_tables_range_injective_witness:
  "SP_RATINGS \<in> {SP_RATINGS, MOODYS_RATINGS, FITCH_RATINGS}
   \<and> map_of SP_RATINGS ''AA-'' = Some 19 \<and> (1::int) \<le> 19 \<and> (19::int) \<le> 22
   \<and> map_of MOODYS_RATINGS ''Aa3'' \<noteq> Some 2"
  using rating_tables_range_injective [of SP_RATINGS "''AA-''" 19 "''AA-''" "''Aa3''"]
  by (simp add: SP_RATINGS_def)

text \<open>
  Claim C2. On a string the normalizer always returns: none of the operations of the two
  functions (\<open>replace\<close>, \<open>strip\<close>, \<open>in\<close>, \<open>re.search\<close>, \<open>group(1)\<close> of a found
  match, \<open>dict.get\<close> with a default, the addition) raises on a string, so the model is
  a total function whose only results are \<open>None\<close> and a number. The empty text,
  \<open>N/A\<close>, \<open>-\<close>, \<open>NR\<close>, and every text whose extracted base code is not a key of the
  table, give \<open>None\<close>.
\<close>

theorem normalizer_absent_not_error:
  "convert_rating_to_numeric '''' rating_dict = None
   \<and> convert_rating_to_numeric ''N/A'' rating_dict = None
   \<and> convert_rating_to_numeric ''-'' rating_dict = None
   \<and> convert_rating_to_numeric ''NR'' rating_dict = None
   \<and> (rating_dict (extract_base_rating rating_text) = None
        \<longrightarrow> convert_rating_to_numeric rating_text rating_dict = None)"
proof -
  have "convert_rating_to_numeric t rating_dict = None"
    if "t \<in> set ['''', ''N/A'', ''-'', ''NR'']" for t
    using that by (auto simp add: convert_rating_to_numeric_def extract_base_rating_def)
  moreover have "rating_dict (extract_base_rating rating_text) = None
        \<longrightarrow> convert_rating_to_numeric rating_text rating_dict = None"
    by (simp add: convert_rating_to_numeric_def Let_def)
  ultimately show ?thesis by simp
qed

theorem normalizer_absent_not_error_witness:
  "map_of MOODYS_RATINGS (extract_base_rating ''BBB+'') = None
   \<and> convert_rating_to_numeric ''BBB+'' (map_of MOODYS_RATINGS) = None"
  using normalizer_absent_not_error [of "map_of MOODYS_RATINGS" "''BBB+''"]
  by (simp add: normalizer_defs MOODYS_RATINGS_def Let_def numeral_3_eq_3)

subsection \<open>Facts about the string primitives\<close>

lemma replace_from_left_absent_char:
  "c \<in> set old \<Longrightarrow> c \<notin> set s \<Longrightarrow> replace_from_left old new s = s"
proof (induction s)
  case Nil
  then show ?case by simp
next
  case (Cons a s)
  have "\<not> prefix old (a # s)"
    using Cons.prems set_mono_prefix by fastforce
  with Cons show ?case by simp
qed

lemma py_replace_absent_char:
  "c \<in> set old \<Longrightarrow> c \<notin> set s \<Longrightarrow> py_replace old new s = s"
  by (auto simp: py_replace_def replace_from_left_absent_char)

lemma str_contains_absent_char:
  "c \<in> set sub \<Longrightarrow> c \<notin> set s \<Longrightarrow> \<not> str_contains sub s"
proof (induction s)
  case Nil
  then show ?case by auto
next
  case (Cons a s)
  have "\<not> prefix sub (a # s)"
    using Cons.prems set_mono_prefix by fastforce
  with Cons show ?case by simp
qed

lemma py_strip_clean_ends:
  "s = [] \<or> (\<not> py_isspace (hd s) \<and> \<not> py_isspace (last s)) \<Longrightarrow> py_strip s = s"
proof (cases s)
  case Nil
  then show ?thesis by (simp add: py_strip_def)
next
  case (Cons a t)
  assume "s = [] \<or> (\<not> py_isspace (hd s) \<and> \<not> py_isspace (last s))"
  with Cons have a: "\<not> py_isspace a" and l: "\<not> py_isspace (last s)" by auto
  from a Cons have 1: "dropWhile py_isspace s = s" by simp
  from l Cons have 2: "dropWhile py_isspace (rev s) = rev s"
    by (metis dropWhile_eq_self_iff hd_rev list.distinct(1) rev_is_Nil_conv)
  show ?thesis by (simp add: py_strip_def 1 2)
qed

lemma py_strip_ends:
  "py_strip s = [] \<or> (\<not> py_isspace (hd (py_strip s)) \<and> \<not> py_isspace (last (py_strip s)))"
proof -
  let ?t = "dropWhile py_isspace s"
  let ?u = "dropWhile py_isspace (rev ?t)"
  show ?thesis
  proof (cases "?u = []")
    case True
    then show ?thesis by (simp add: py_strip_def)
  next
    case False
    then have hu: "\<not> py_isspace (hd ?u)" by (simp add: hd_dropWhile)
    from False have t: "?t \<noteq> []" by (metis dropWhile.simps(1) rev.simps(1))
    then have ht: "\<not> py_isspace (hd ?t)" by (simp add: hd_dropWhile)
    obtain pre where pre: "rev ?t = pre @ ?u"
      by (metis takeWhile_dropWhile_id)
    with False have "last (rev ?t) = last ?u" by (metis last_appendR)
    with t have "last ?u = hd ?t" by (metis last_rev)
    with hu ht False show ?thesis
      by (simp add: py_strip_def hd_rev last_rev)
  qed
qed

lemma py_strip_idem: "py_strip (py_strip s) = py_strip s"
  using py_strip_ends [of s] by (rule py_strip_clean_ends)

lemma py_strip_subset: "set (py_strip s) \<subseteq> set s"
proof -
  have "set (py_strip s) \<subseteq> set (dropWhile py_isspace s)"
    unfolding py_strip_def by (metis set_dropWhileD set_rev subsetI)
  also have "\<dots> \<subseteq> set s" by (auto dest: set_dropWhileD)
  finally show ?thesis .
qed

subsection \<open>Facts about the pattern\<close>

lemma sign_not_letter: "is_sign c \<Longrightarrow> \<not> is_ascii_letter c"
  by (auto simp: is_sign_def is_ascii_letter_def)

lemma digit_not_letter: "is_digit123 c \<Longrightarrow> \<not> is_ascii_letter c"
  by (auto simp: is_digit123_def is_ascii_letter_def)

lemma digit_not_sign: "is_digit123 c \<Longrightarrow> \<not> is_sign c"
  by (auto simp: is_digit123_def is_sign_def)

lemma letter_not_space: "is_ascii_letter c \<Longrightarrow> \<not> py_isspace c"
  by (auto simp: py_isspace_def is_ascii_letter_def Let_def)

lemma sign_not_space: "is_sign c \<Longrightarrow> \<not> py_isspace c"
  by (auto simp: py_isspace_def is_sign_def)

lemma digit_not_space: "is_digit123 c \<Longrightarrow> \<not> py_isspace c"
  by (auto simp: py_isspace_def is_digit123_def)

lemma take_letters_letters: "c \<in> set (take_letters n s) \<Longrightarrow> is_ascii_letter c"
  by (induction n s rule: take_letters.induct) (auto split: if_splits)

lemma take_letters_length: "length (take_letters n s) \<le> n"
  by (induction n s rule: take_letters.induct) auto

lemma take_letters_prefix: "take_letters n s @ drop (length (take_letters n s)) s = s"
  by (induction n s rule: take_letters.induct) auto

lemma take_letters_Nil_iff:
  "take_letters (Suc n) s = [] \<longleftrightarrow> (s = [] \<or> \<not> is_ascii_letter (hd s))"
  by (cases s) auto

lemma take_letters_again:
  "(\<forall>c \<in> set L. is_ascii_letter c) \<Longrightarrow> length L \<le> n \<Longrightarrow>
     length L = n \<or> r = [] \<or> \<not> is_ascii_letter (hd r) \<Longrightarrow>
     take_letters n (L @ r) = L"
proof (induction n "L @ r" arbitrary: L r rule: take_letters.induct)
  case (1 s)
  then show ?case by simp
next
  case (2 n)
  then show ?case by simp
next
  case (3 n c cs)
  show ?case
  proof (cases L)
    case Nil
    with 3 show ?thesis by (cases r) auto
  next
    case (Cons a L')
    with 3(2) have eq: "a = c" "cs = L' @ r" by auto
    from Cons 3(3) have a: "is_ascii_letter a" by simp
    have "take_letters n (L' @ r) = L'"
      using 3(1) [of L' r] eq a Cons 3(3,4,5) by auto
    with eq a Cons show ?thesis by simp
  qed
qed

lemma opt_char_cases:
  "opt_char P s = [] \<or> (\<exists>c. opt_char P s = [c] \<and> P c)"
  by (cases s) auto

lemma match_rating_at_shape:
  assumes "match_rating_at s = Some m"
  shows "\<exists>L S D. m = L @ S @ D \<and> L \<noteq> [] \<and> length L \<le> 3
           \<and> (\<forall>c \<in> set L. is_ascii_letter c)
           \<and> (S = [] \<or> (\<exists>c. S = [c] \<and> is_sign c))
           \<and> (D = [] \<or> (\<exists>c. D = [c] \<and> is_digit123 c))"
proof -
  let ?L = "take_letters 3 s"
  let ?r1 = "drop (length ?L) s"
  let ?S = "opt_char is_sign ?r1"
  let ?D = "opt_char is_digit123 (drop (length ?S) ?r1)"
  from assms have L: "?L \<noteq> []" and m: "m = ?L @ ?S @ ?D"
    by (auto simp: match_rating_at_def Let_def split: if_splits)
  show ?thesis
    using L m take_letters_length [of 3 s] take_letters_letters [of _ 3 s]
      opt_char_cases [of is_sign ?r1] opt_char_cases [of is_digit123 "drop (length ?S) ?r1"]
    by blast
qed

lemma match_rating_at_of_shape:
  assumes L: "L \<noteq> []" "length L \<le> 3" "\<forall>c \<in> set L. is_ascii_letter c"
    and S: "S = [] \<or> (\<exists>c. S = [c] \<and> is_sign c)"
    and D: "D = [] \<or> (\<exists>c. D = [c] \<and> is_digit123 c)"
  shows "match_rating_at (L @ S @ D) = Some (L @ S @ D)"
proof -
  have "S @ D = [] \<or> \<not> is_ascii_letter (hd (S @ D))"
    using S D by (auto simp: sign_not_letter digit_not_letter)
  then have tl: "take_letters 3 (L @ S @ D) = L"
    using L by (intro take_letters_again) auto
  have s: "opt_char is_sign (S @ D) = S"
    using S D by (auto simp: digit_not_sign)
  have d: "opt_char is_digit123 D = D"
    using D by auto
  show ?thesis
    using L(1) by (simp add: match_rating_at_def tl s d)
qed

lemma match_rating_at_idem:
  "match_rating_at s = Some m \<Longrightarrow> match_rating_at m = Some m"
  using match_rating_at_shape [of s m] match_rating_at_of_shape by blast

lemma match_rating_at_props:
  assumes "match_rating_at s = Some m"
  shows "m \<noteq> []" "is_ascii_letter (hd m)" "\<not> py_isspace (hd m)" "\<not> py_isspace (last m)"
    "\<forall>c \<in> set m. is_ascii_letter c \<or> is_sign c \<or> is_digit123 c"
proof -
  from match_rating_at_shape [OF assms] obtain L S D where
    m: "m = L @ S @ D" and L: "L \<noteq> []" "\<forall>c \<in> set L. is_ascii_letter c"
    and S: "S = [] \<or> (\<exists>c. S = [c] \<and> is_sign c)"
    and D: "D = [] \<or> (\<exists>c. D = [c] \<and> is_digit123 c)"
    by blast
  show "m \<noteq> []" using m L by simp
  show h: "is_ascii_letter (hd m)" using m L by (cases L) auto
  then show "\<not> py_isspace (hd m)" by (rule letter_not_space)
  show all: "\<forall>c \<in> set m. is_ascii_letter c \<or> is_sign c \<or> is_digit123 c"
    using m L S D by auto
  have "last m \<in> set m" using \<open>m \<noteq> []\<close> by simp
  with all show "\<not> py_isspace (last m)"
    using letter_not_space sign_not_space digit_not_space by blast
qed

lemma re_search_rating_None_iff:
  "re_search_rating s = None \<longleftrightarrow> (\<forall>c \<in> set s. \<not> is_ascii_letter c)"
  by (induction s)
    (auto simp: match_rating_at_def Let_def numeral_3_eq_3 split: option.splits if_splits)

lemma re_search_rating_Some:
  "re_search_rating s = Some m \<Longrightarrow> \<exists>t. match_rating_at t = Some m"
  by (induction s) (auto split: option.splits)

lemma re_search_rating_idem:
  assumes "re_search_rating s = Some m"
  shows "re_search_rating m = Some m"
proof -
  from re_search_rating_Some [OF assms] obtain t where t: "match_rating_at t = Some m" ..
  from match_rating_at_props(1) [OF t] obtain c cs where m: "m = c # cs"
    by (cases m) auto
  from match_rating_at_idem [OF t] m show ?thesis by simp
qed

subsection \<open>Re-normalizing an extracted base rating\<close>

lemma str_contains_iff: "str_contains sub s \<longleftrightarrow> (\<exists>a b. s = a @ sub @ b)"
proof (induction s)
  case Nil
  then show ?case by auto
next
  case (Cons c cs)
  show ?case
  proof
    assume "str_contains sub (c # cs)"
    then consider "prefix sub (c # cs)" | "str_contains sub cs" by auto
    then show "\<exists>a b. c # cs = a @ sub @ b"
    proof cases
      case 1
      then obtain b where "c # cs = sub @ b" by (auto simp: prefix_def)
      then have "c # cs = [] @ sub @ b" by simp
      then show ?thesis by blast
    next
      case 2
      with Cons obtain a b where "cs = a @ sub @ b" by blast
      then have "c # cs = (c # a) @ sub @ b" by simp
      then show ?thesis by blast
    qed
  next
    assume "\<exists>a b. c # cs = a @ sub @ b"
    then obtain a b where ab: "c # cs = a @ sub @ b" by blast
    show "str_contains sub (c # cs)"
    proof (cases a)
      case Nil
      with ab have "prefix sub (c # cs)" by (simp add: prefix_def)
      then show ?thesis by simp
    next
      case (Cons a0 a')
      with ab have "cs = a' @ sub @ b" by simp
      with Cons.IH show ?thesis by auto
    qed
  qed
qed

lemma str_contains_suffix_part:
  "str_contains (p @ q) s \<Longrightarrow> str_contains q s"
  unfolding str_contains_iff by (metis append.assoc)

lemma upgrade_modifier_tag_free:
  assumes "\<not> str_contains ''[upgrade]'' x" "\<not> str_contains ''[downgrade]'' x"
  shows "upgrade_modifier x = 0"
proof -
  have "\<not> str_contains (''    '' @ ''[upgrade]'') x"
    using assms(1) str_contains_suffix_part by blast
  moreover have "\<not> str_contains (''    '' @ ''[downgrade]'') x"
    using assms(2) str_contains_suffix_part by blast
  ultimately show ?thesis
    using assms by (simp add: upgrade_modifier_def)
qed

lemma upgrade_modifier_no_bracket:
  "CHR ''['' \<notin> set s \<Longrightarrow> upgrade_modifier s = 0"
  by (rule upgrade_modifier_tag_free) (simp_all add: str_contains_absent_char [of "CHR ''[''"])

lemma remove_tags_absent_char:
  assumes "c \<in> set ''    [upgrade]''" "c \<in> set ''    [downgrade]''" "c \<notin> set s"
  shows "py_replace ''    [downgrade]'' '''' (py_replace ''    [upgrade]'' '''' s) = s"
  using assms by (simp add: py_replace_absent_char [of c])

lemma space_isspace: "py_isspace (CHR '' '')"
  by (simp add: py_isspace_def)

lemma extract_base_rating_of_match:
  assumes m: "match_rating_at t = Some m" and ne: "m \<notin> {''SD'', ''RD'', ''NR''}"
  shows "extract_base_rating m = m" "CHR ''['' \<notin> set m"
proof -
  note p = match_rating_at_props [OF m]
  show nbr: "CHR ''['' \<notin> set m"
  proof
    assume "CHR ''['' \<in> set m"
    with p(5) have "is_ascii_letter (CHR ''['') \<or> is_sign (CHR ''['') \<or> is_digit123 (CHR ''['')"
      by (rule bspec)
    then show False by (simp add: is_ascii_letter_def is_sign_def is_digit123_def)
  qed
  have nslash: "CHR ''/'' \<notin> set m"
  proof
    assume "CHR ''/'' \<in> set m"
    with p(5) have "is_ascii_letter (CHR ''/'') \<or> is_sign (CHR ''/'') \<or> is_digit123 (CHR ''/'')"
      by (rule bspec)
    then show False by (simp add: is_ascii_letter_def is_sign_def is_digit123_def)
  qed
  have sp: "CHR '' '' \<notin> set m"
  proof
    assume "CHR '' '' \<in> set m"
    with p(5) have "is_ascii_letter (CHR '' '') \<or> is_sign (CHR '' '') \<or> is_digit123 (CHR '' '')"
      by (rule bspec)
    then show False by (simp add: is_ascii_letter_def is_sign_def is_digit123_def)
  qed
  have na: "m \<noteq> ''N/A''"
  proof
    assume "m = ''N/A''"
    then have "CHR ''/'' \<in> set m" by simp
    with nslash show False by simp
  qed
  have dash: "m \<noteq> ''-''"
  proof
    assume "m = ''-''"
    with p(2) have "is_ascii_letter (CHR ''-'')" by simp
    then show False by (simp add: is_ascii_letter_def)
  qed
  have rep: "py_replace ''    [downgrade]'' '''' (py_replace ''    [upgrade]'' '''' m) = m"
    using sp by (intro remove_tags_absent_char [of "CHR '' ''"]) simp_all
  have strip: "py_strip m = m"
    using p(3,4) by (simp add: py_strip_clean_ends)
  obtain c cs where mc: "m = c # cs" using p(1) by (cases m) auto
  have search: "re_search_rating m = Some m"
    using match_rating_at_idem [OF m] mc by simp
  have 1: "\<not> (m = [] \<or> m \<in> set [''N/A'', ''-'', '''', ''NR''])"
    using p(1) na dash ne by simp
  have 2: "m \<notin> set [''SD'', ''RD'']"
    using ne by simp
  show "extract_base_rating m = m"
    unfolding extract_base_rating_def Let_def rep strip search
    using 1 2 by (simp only: if_False option.case)
qed


lemma extract_base_rating_of_letterless:
  assumes nl: "\<forall>c \<in> set s. \<not> is_ascii_letter c" and st: "py_strip s = s"
    and ne: "s \<notin> {''-'', ''''}"
  shows "extract_base_rating s = s" "upgrade_modifier s = 0"
proof -
  have letter: "is_ascii_letter (CHR ''g'')" "is_ascii_letter (CHR ''N'')"
    "is_ascii_letter (CHR ''S'')" "is_ascii_letter (CHR ''R'')"
    by (simp_all add: is_ascii_letter_def)
  have g: "CHR ''g'' \<notin> set s" and N: "CHR ''N'' \<notin> set s"
    and S: "CHR ''S'' \<notin> set s" and R: "CHR ''R'' \<notin> set s"
    using nl letter by (metis)+
  have notna: "s \<noteq> ''N/A''" "s \<noteq> ''NR''" "s \<noteq> ''SD''" "s \<noteq> ''RD''"
    using N S R by auto
  have rep: "py_replace ''    [downgrade]'' '''' (py_replace ''    [upgrade]'' '''' s) = s"
    using g by (intro remove_tags_absent_char [of "CHR ''g''"]) simp_all
  have search: "re_search_rating s = None"
    using nl by (simp add: re_search_rating_None_iff)
  have 1: "\<not> (s = [] \<or> s \<in> set [''N/A'', ''-'', '''', ''NR''])"
    using notna ne by simp
  have 2: "s \<notin> set [''SD'', ''RD'']"
    using notna by simp
  show "extract_base_rating s = s"
    unfolding extract_base_rating_def Let_def rep st search
    using 1 2 by (simp only: if_False option.case)
  show "upgrade_modifier s = 0"
    using g by (intro upgrade_modifier_tag_free)
      (simp_all add: str_contains_absent_char [of "CHR ''g''"])
qed

lemma extract_base_rating_cases:
  assumes "\<not> (x = [] \<or> x \<in> set [''N/A'', ''-'', '''', ''NR''])"
  shows "extract_base_rating x =
     (let clean = py_strip (py_replace ''    [downgrade]'' ''''
                              (py_replace ''    [upgrade]'' '''' x))
      in if clean \<in> set [''SD'', ''RD''] then ''D''
         else case re_search_rating clean of Some m \<Rightarrow> m | None \<Rightarrow> clean)"
  unfolding extract_base_rating_def using assms by (simp only: if_False)

lemma extract_base_rating_D: "extract_base_rating ''D'' = ''D''"
  by (simp add: normalizer_defs Let_def numeral_3_eq_3)

lemma upgrade_modifier_D: "upgrade_modifier ''D'' = 0"
  by (simp add: upgrade_modifier_def)

text \<open>What \<open>extract_base_rating\<close> returns is, with five exceptions, a fixed point.\<close>

lemma extract_base_rating_fixed:
  assumes "extract_base_rating x \<notin> {''SD'', ''RD'', ''NR'', ''-'', ''''}"
  shows "extract_base_rating x = ''N/A''
     \<or> (extract_base_rating (extract_base_rating x) = extract_base_rating x
         \<and> upgrade_modifier (extract_base_rating x) = 0)"
proof (cases "x = [] \<or> x \<in> set [''N/A'', ''-'', '''', ''NR'']")
  case True
  then have "extract_base_rating x = ''N/A''"
    unfolding extract_base_rating_def by (simp only: if_True)
  then show ?thesis by (rule disjI1)
next
  case False
  let ?clean = "py_strip (py_replace ''    [downgrade]'' '''' (py_replace ''    [upgrade]'' '''' x))"
  note e = extract_base_rating_cases [OF False, unfolded Let_def]
  show ?thesis
  proof (cases "?clean \<in> set [''SD'', ''RD'']")
    case True
    with e have "extract_base_rating x = ''D''"
      by (simp only: if_True)
    then show ?thesis
      by (simp only: extract_base_rating_D upgrade_modifier_D simp_thms)
  next
    case notsd: False
    show ?thesis
    proof (cases "re_search_rating ?clean")
      case None
      with e notsd have b: "extract_base_rating x = ?clean"
        by (simp only: if_False option.case)
      have nl: "\<forall>c \<in> set ?clean. \<not> is_ascii_letter c"
        using None by (simp only: re_search_rating_None_iff)
      have st: "py_strip ?clean = ?clean" by (rule py_strip_idem)
      have ne: "?clean \<notin> {''-'', ''''}" using assms unfolding b by simp
      from extract_base_rating_of_letterless [OF nl st ne] show ?thesis
        unfolding b by (simp only: simp_thms)
    next
      case (Some m)
      with e notsd have b: "extract_base_rating x = m"
        by (simp only: if_False option.case)
      from Some obtain t where t: "match_rating_at t = Some m"
        using re_search_rating_Some by blast
      have ne: "m \<notin> {''SD'', ''RD'', ''NR''}" using assms unfolding b by simp
      from extract_base_rating_of_match [OF t ne] show ?thesis
        unfolding b by (simp only: upgrade_modifier_no_bracket simp_thms)
    qed
  qed
qed

lemma convert_rating_to_numeric_absent_texts:
  "convert_rating_to_numeric [] rating_dict = None"
  "convert_rating_to_numeric ''N/A'' rating_dict = None"
  "convert_rating_to_numeric ''NR'' rating_dict = None"
  "convert_rating_to_numeric ''-'' rating_dict = None"
  by (simp_all add: convert_rating_to_numeric_def extract_base_rating_def)

lemma convert_rating_to_numeric_unmodified:
  assumes "x \<noteq> []" "upgrade_modifier x = 0"
  shows "convert_rating_to_numeric x rating_dict =
     (if extract_base_rating x = ''N/A'' then None
      else map_option of_int (rating_dict (extract_base_rating x)))"
  using assms by (simp add: convert_rating_to_numeric_def Let_def split: option.split)

lemma convert_rating_to_numeric_idem:
  assumes tag_free: "\<not> str_contains ''[upgrade]'' x" "\<not> str_contains ''[downgrade]'' x"
    and nsd: "extract_base_rating x \<notin> {''SD'', ''RD''}"
    and keys: "rating_dict ''NR'' = None" "rating_dict ''-'' = None" "rating_dict '''' = None"
  shows "convert_rating_to_numeric (extract_base_rating x) rating_dict
       = convert_rating_to_numeric x rating_dict"
proof (cases "x = []")
  case True
  then show ?thesis
    by (simp add: extract_base_rating_def convert_rating_to_numeric_absent_texts)
next
  case False
  let ?b = "extract_base_rating x"
  note x = convert_rating_to_numeric_unmodified
    [OF False upgrade_modifier_tag_free [OF tag_free], of rating_dict]
  show ?thesis
  proof (cases "?b \<in> {''N/A'', ''NR'', ''-'', ''''}")
    case True
    then consider "?b = ''N/A''" | "?b = ''NR''" | "?b = ''-''" | "?b = ''''" by auto
    then show ?thesis
    proof cases
      case 1
      show ?thesis unfolding x unfolding 1
        by (simp add: convert_rating_to_numeric_absent_texts)
    next
      case 2
      show ?thesis unfolding x unfolding 2
        by (simp add: convert_rating_to_numeric_absent_texts keys)
    next
      case 3
      show ?thesis unfolding x unfolding 3
        by (simp add: convert_rating_to_numeric_absent_texts keys)
    next
      case 4
      show ?thesis unfolding x unfolding 4
        by (simp add: convert_rating_to_numeric_absent_texts keys)
    qed
  next
    case ok: False
    with nsd have "?b \<notin> {''SD'', ''RD'', ''NR'', ''-'', ''''}" by simp
    from extract_base_rating_fixed [OF this] ok
    have fixed: "extract_base_rating ?b = ?b" and md: "upgrade_modifier ?b = 0"
      by simp_all
    from ok have "?b \<noteq> []" by simp
    from convert_rating_to_numeric_unmodified [OF this md, of rating_dict]
    show ?thesis unfolding x fixed .
  qed
qed

lemma tables_absent_keys:
  "map_of SP_RATINGS ''NR'' = None" "map_of SP_RATINGS ''-'' = None"
  "map_of SP_RATINGS '''' = None" "map_of SP_RATINGS ''SD'' = None"
  "map_of SP_RATINGS ''RD'' = None"
  "map_of MOODYS_RATINGS ''NR'' = None" "map_of MOODYS_RATINGS ''-'' = None"
  "map_of MOODYS_RATINGS '''' = None" "map_of MOODYS_RATINGS ''SD'' = None"
  "map_of MOODYS_RATINGS ''RD'' = None" "map_of MOODYS_RATINGS ''D'' = None"
  "map_of FITCH_RATINGS ''NR'' = None" "map_of FITCH_RATINGS ''-'' = None"
  "map_of FITCH_RATINGS '''' = None" "map_of FITCH_RATINGS ''SD'' = None"
  "map_of FITCH_RATINGS ''RD'' = None"
  by (simp_all add: SP_RATINGS_def MOODYS_RATINGS_def FITCH_RATINGS_def)

lemma convert_default_indicator:
  "convert_rating_to_numeric ''SD'' rating_dict = map_option of_int (rating_dict ''D'')"
  "convert_rating_to_numeric ''RD'' rating_dict = map_option of_int (rating_dict ''D'')"
  by (simp_all add: normalizer_defs Let_def numeral_3_eq_3 split: option.split)

text \<open>
  Claim C8, as the code has it. For a text without the tag \<open>[upgrade]\<close> or
  \<open>[downgrade]\<close> and each of the three agency tables, normalizing the extracted base
  rating gives the same score as normalizing the text, provided the extracted base rating
  is not one of the default indicators \<open>SD\<close> and \<open>RD\<close>; with the table of Moody's,
  which has no key \<open>D\<close>, the proviso is not needed.
\<close>

theorem normalizer_idempotent_on_clean_codes:
  assumes tag_free: "\<not> str_contains ''[upgrade]'' x" "\<not> str_contains ''[downgrade]'' x"
    and table: "rating_dict \<in> {map_of SP_RATINGS, map_of MOODYS_RATINGS, map_of FITCH_RATINGS}"
    and indicator: "extract_base_rating x \<in> {''SD'', ''RD''}
                    \<longrightarrow> rating_dict = map_of MOODYS_RATINGS"
  shows "convert_rating_to_numeric (extract_base_rating x) rating_dict
       = convert_rating_to_numeric x rating_dict"
proof (cases "extract_base_rating x \<in> {''SD'', ''RD''}")
  case False
  from table have "rating_dict ''NR'' = None" "rating_dict ''-'' = None" "rating_dict '''' = None"
    by (auto simp: tables_absent_keys)
  with tag_free False show ?thesis by (rule convert_rating_to_numeric_idem)
next
  case True
  with indicator have rd: "rating_dict = map_of MOODYS_RATINGS" by (rule mp)
  from True have ne: "x \<noteq> []"
    by (auto simp: extract_base_rating_def)
  note x = convert_rating_to_numeric_unmodified
    [OF ne upgrade_modifier_tag_free [OF tag_free], of rating_dict]
  from True consider "extract_base_rating x = ''SD''" | "extract_base_rating x = ''RD''"
    by auto
  then show ?thesis
  proof cases
    case 1
    show ?thesis unfolding x unfolding 1 rd
      by (simp add: convert_default_indicator tables_absent_keys)
  next
    case 2
    show ?thesis unfolding x unfolding 2 rd
      by (simp add: convert_default_indicator tables_absent_keys)
  qed
qed

theorem normalizer_idempotent_on_clean_codes_witness:
  "\<not> str_contains ''[upgrade]'' ''BBB+ (*)'' \<and> \<not> str_contains ''[downgrade]'' ''BBB+ (*)''
   \<and> extract_base_rating ''BBB+ (*)'' = ''BBB+''
   \<and> convert_rating_to_numeric ''BBB+'' (map_of SP_RATINGS) = Some 15
   \<and> convert_rating_to_numeric ''BBB+ (*)'' (map_of SP_RATINGS) = Some 15"
proof -
  have e: "extract_base_rating ''BBB+ (*)'' = ''BBB+''"
    by (simp add: normalizer_defs Let_def numeral_3_eq_3)
  have c: "convert_rating_to_numeric ''BBB+'' (map_of SP_RATINGS) = Some 15"
    by (simp add: normalizer_defs SP_RATINGS_def Let_def numeral_3_eq_3)
  have t: "\<not> str_contains ''[upgrade]'' ''BBB+ (*)''"
    "\<not> str_contains ''[downgrade]'' ''BBB+ (*)''"
    by simp_all
  have d: "map_of SP_RATINGS
      \<in> {map_of SP_RATINGS, map_of MOODYS_RATINGS, map_of FITCH_RATINGS}"
    by simp
  have n: "extract_base_rating ''BBB+ (*)'' \<in> {''SD'', ''RD''}
      \<longrightarrow> map_of SP_RATINGS = map_of MOODYS_RATINGS"
    by (simp add: e)
  from normalizer_idempotent_on_clean_codes [OF t d n] e c t
  show ?thesis by simp
qed

text \<open>
  Claim C8 as stated, at the text \<open>(SD)\<close> and the S&P table. The text is not exactly
  \<open>SD\<close>, so the pattern extracts \<open>SD\<close>, which is no key: the text has no score. The
  extracted \<open>SD\<close> on its own is the default indicator and has the score of \<open>D\<close>.
\<close>

theorem idempotence_fails_on_default_indicator_counterexample:
  "\<not> str_contains ''[upgrade]'' ''(SD)'' \<and> \<not> str_contains ''[downgrade]'' ''(SD)''
   \<and> extract_base_rating ''(SD)'' = ''SD''
   \<and> convert_rating_to_numeric ''(SD)'' (map_of SP_RATINGS) = None
   \<and> convert_rating_to_numeric (extract_base_rating ''(SD)'') (map_of SP_RATINGS) = Some 1"
  by (simp add: normalizer_defs SP_RATINGS_def Let_def numeral_3_eq_3)

subsection \<open>Outlook tags after any number of spaces\<close>

lemma replace_from_left_skip:
  assumes "old \<noteq> []" "hd old \<notin> set a"
  shows "replace_from_left old new (a @ s) = a @ replace_from_left old new s"
  using assms(2)
proof (induction a)
  case Nil
  show ?case by simp
next
  case (Cons c a)
  from assms(1) obtain p ps where old: "old = p # ps" by (cases old) auto
  with Cons.prems have "p \<noteq> c" by auto
  then have "\<not> prefix old (c # a @ s)" by (simp add: old)
  with Cons show ?case by simp
qed

lemma replace_upgrade_tag_spaces:
  "replace_from_left ''    [upgrade]'' []
     (replicate (Suc (Suc (Suc (Suc m)))) CHR '' '' @ ''[upgrade]'') = replicate m CHR '' ''"
  by (induction m) simp_all

lemma replace_downgrade_tag_spaces:
  "replace_from_left ''    [downgrade]'' []
     (replicate (Suc (Suc (Suc (Suc m)))) CHR '' '' @ ''[downgrade]'') = replicate m CHR '' ''"
  by (induction m) simp_all

lemma few_spaces:
  "n < 4 \<Longrightarrow> n = 0 \<or> n = Suc 0 \<or> n = Suc (Suc 0) \<or> n = Suc (Suc (Suc 0))"
  by arith

lemma many_spaces:
  "\<not> n < 4 \<Longrightarrow> \<exists>m. n = Suc (Suc (Suc (Suc m)))"
  by (rule exI [of _ "n - 4"]) arith

lemma replace_upgrade_tag_few_spaces:
  assumes "n < 4"
  shows "replace_from_left ''    [upgrade]'' [] (replicate n CHR '' '' @ ''[upgrade]'')
       = replicate n CHR '' '' @ ''[upgrade]''"
  using few_spaces [OF assms] by (elim disjE) simp_all

lemma replace_downgrade_tag_few_spaces:
  assumes "n < 4"
  shows "replace_from_left ''    [downgrade]'' [] (replicate n CHR '' '' @ ''[downgrade]'')
       = replicate n CHR '' '' @ ''[downgrade]''"
  using few_spaces [OF assms] by (elim disjE) simp_all

lemma py_strip_trailing_spaces:
  assumes "k \<noteq> []" "\<not> py_isspace (hd k)" "\<not> py_isspace (last k)"
  shows "py_strip (k @ replicate m CHR '' '') = k"
proof -
  from assms(1,2)
  have 1: "dropWhile py_isspace (k @ replicate m CHR '' '') = k @ replicate m CHR '' ''"
    by (cases k) simp_all
  have 2: "dropWhile py_isspace (replicate m CHR '' '' @ rev k) = dropWhile py_isspace (rev k)"
    by (rule dropWhile_append2) (simp add: space_isspace)
  from assms have 3: "dropWhile py_isspace (rev k) = rev k"
    by (metis dropWhile_eq_self_iff hd_rev)
  show ?thesis by (simp add: py_strip_def 1 2 3)
qed

lemma match_rating_at_followed:
  assumes k: "match_rating_at k = Some k"
    and r: "r = [] \<or> (\<not> is_ascii_letter (hd r) \<and> \<not> is_sign (hd r) \<and> \<not> is_digit123 (hd r))"
  shows "match_rating_at (k @ r) = Some k"
proof -
  from match_rating_at_shape [OF k] obtain L S D where
    eq: "k = L @ S @ D" and L: "L \<noteq> []" "length L \<le> 3" "\<forall>c \<in> set L. is_ascii_letter c"
    and S: "S = [] \<or> (\<exists>c. S = [c] \<and> is_sign c)"
    and D: "D = [] \<or> (\<exists>c. D = [c] \<and> is_digit123 c)"
    by blast
  have "S @ D @ r = [] \<or> \<not> is_ascii_letter (hd (S @ D @ r))"
    using S D r by (auto simp: sign_not_letter digit_not_letter)
  then have tl: "take_letters 3 (L @ S @ D @ r) = L"
    using L by (intro take_letters_again) auto
  have s: "opt_char is_sign (S @ D @ r) = S"
    using S D r by (cases r) (auto simp: digit_not_sign)
  have d: "opt_char is_digit123 (D @ r) = D"
    using D r by (cases r) auto
  show ?thesis
    using L(1) by (simp add: match_rating_at_def eq tl s d)
qed

lemma re_search_rating_of_match:
  "match_rating_at s = Some m \<Longrightarrow> re_search_rating s = Some m"
  by (cases s) (simp_all add: match_rating_at_def numeral_3_eq_3)

lemma match_rating_at_chars:
  assumes m: "match_rating_at s = Some m"
  shows "CHR '' '' \<notin> set m" "CHR ''['' \<notin> set m" "CHR ''/'' \<notin> set m" "CHR '']'' \<notin> set m"
proof -
  note p = match_rating_at_props(5) [OF m]
  show "CHR '' '' \<notin> set m"
  proof
    assume "CHR '' '' \<in> set m"
    with p have "is_ascii_letter (CHR '' '') \<or> is_sign (CHR '' '') \<or> is_digit123 (CHR '' '')"
      by (rule bspec)
    then show False by (simp add: is_ascii_letter_def is_sign_def is_digit123_def)
  qed
  show "CHR ''['' \<notin> set m"
  proof
    assume "CHR ''['' \<in> set m"
    with p have "is_ascii_letter (CHR ''['') \<or> is_sign (CHR ''['') \<or> is_digit123 (CHR ''['')"
      by (rule bspec)
    then show False by (simp add: is_ascii_letter_def is_sign_def is_digit123_def)
  qed
  show "CHR ''/'' \<notin> set m"
  proof
    assume "CHR ''/'' \<in> set m"
    with p have "is_ascii_letter (CHR ''/'') \<or> is_sign (CHR ''/'') \<or> is_digit123 (CHR ''/'')"
      by (rule bspec)
    then show False by (simp add: is_ascii_letter_def is_sign_def is_digit123_def)
  qed
  show "CHR '']'' \<notin> set m"
  proof
    assume "CHR '']'' \<in> set m"
    with p have "is_ascii_letter (CHR '']'') \<or> is_sign (CHR '']'') \<or> is_digit123 (CHR '']'')"
      by (rule bspec)
    then show False by (simp add: is_ascii_letter_def is_sign_def is_digit123_def)
  qed
qed

lemma tag_head_stops_match:
  assumes "tag = ''[upgrade]'' \<or> tag = ''[downgrade]''"
  shows "\<not> is_ascii_letter (hd (replicate n CHR '' '' @ tag))
       \<and> \<not> is_sign (hd (replicate n CHR '' '' @ tag))
       \<and> \<not> is_digit123 (hd (replicate n CHR '' '' @ tag))"
proof (cases n)
  case 0
  from assms show ?thesis
  proof
    assume "tag = ''[upgrade]''"
    with 0 show ?thesis by (simp add: is_ascii_letter_def is_sign_def is_digit123_def)
  next
    assume "tag = ''[downgrade]''"
    with 0 show ?thesis by (simp add: is_ascii_letter_def is_sign_def is_digit123_def)
  qed
next
  case (Suc m)
  then show ?thesis by (simp add: is_ascii_letter_def is_sign_def is_digit123_def)
qed

lemma clean_rating_upgrade:
  assumes k: "match_rating_at k = Some k" and w: "CHR ''w'' \<notin> set k"
  shows "py_strip (py_replace ''    [downgrade]'' ''''
           (py_replace ''    [upgrade]'' '''' (k @ replicate n CHR '' '' @ ''[upgrade]'')))
       = (if n < 4 then k @ replicate n CHR '' '' @ ''[upgrade]'' else k)"
proof -
  note c = match_rating_at_chars [OF k] and q = match_rating_at_props [OF k]
  let ?x = "k @ replicate n CHR '' '' @ ''[upgrade]''"
  have skip: "py_replace ''    [upgrade]'' '''' (k @ replicate j CHR '' '' @ ''[upgrade]'')
      = k @ replace_from_left ''    [upgrade]'' [] (replicate j CHR '' '' @ ''[upgrade]'')" for j
    using c(1) by (simp add: py_replace_def replace_from_left_skip)
  show ?thesis
  proof (cases "n < 4")
    case True
    have r1: "py_replace ''    [upgrade]'' '''' ?x = ?x"
      unfolding skip by (simp only: replace_upgrade_tag_few_spaces [OF True])
    have r2: "py_replace ''    [downgrade]'' '''' ?x = ?x"
      using w by (intro py_replace_absent_char [of "CHR ''w''"]) simp_all
    have "py_strip ?x = ?x"
      using q(1,3) by (intro py_strip_clean_ends) (simp add: py_isspace_def)
    with True show ?thesis by (simp only: r1 r2 if_True)
  next
    case False
    from many_spaces [OF False] obtain m where n: "n = Suc (Suc (Suc (Suc m)))" ..
    have r1: "py_replace ''    [upgrade]'' '''' ?x = k @ replicate m CHR '' ''"
      unfolding n skip by (simp only: replace_upgrade_tag_spaces)
    have r2: "py_replace ''    [downgrade]'' '''' (k @ replicate m CHR '' '')
        = k @ replicate m CHR '' ''"
      using c(2) by (intro py_replace_absent_char [of "CHR ''[''"]) simp_all
    have "py_strip (k @ replicate m CHR '' '') = k"
      using q(1,3,4) by (rule py_strip_trailing_spaces)
    with False show ?thesis by (simp only: r1 r2 if_False)
  qed
qed

lemma clean_rating_downgrade:
  assumes k: "match_rating_at k = Some k" and p: "CHR ''p'' \<notin> set k"
  shows "py_strip (py_replace ''    [downgrade]'' ''''
           (py_replace ''    [upgrade]'' '''' (k @ replicate n CHR '' '' @ ''[downgrade]'')))
       = (if n < 4 then k @ replicate n CHR '' '' @ ''[downgrade]'' else k)"
proof -
  note c = match_rating_at_chars [OF k] and q = match_rating_at_props [OF k]
  let ?x = "k @ replicate n CHR '' '' @ ''[downgrade]''"
  have r1: "py_replace ''    [upgrade]'' '''' ?x = ?x"
    using p by (intro py_replace_absent_char [of "CHR ''p''"]) simp_all
  have skip: "py_replace ''    [downgrade]'' '''' (k @ replicate j CHR '' '' @ ''[downgrade]'')
      = k @ replace_from_left ''    [downgrade]'' [] (replicate j CHR '' '' @ ''[downgrade]'')" for j
    using c(1) by (simp add: py_replace_def replace_from_left_skip)
  show ?thesis
  proof (cases "n < 4")
    case True
    have r2: "py_replace ''    [downgrade]'' '''' ?x = ?x"
      unfolding skip by (simp only: replace_downgrade_tag_few_spaces [OF True])
    have "py_strip ?x = ?x"
      using q(1,3) by (intro py_strip_clean_ends) (simp add: py_isspace_def)
    with True show ?thesis by (simp only: r1 r2 if_True)
  next
    case False
    from many_spaces [OF False] obtain m where n: "n = Suc (Suc (Suc (Suc m)))" ..
    have r2: "py_replace ''    [downgrade]'' '''' ?x = k @ replicate m CHR '' ''"
      unfolding n skip by (simp only: replace_downgrade_tag_spaces)
    have "py_strip (k @ replicate m CHR '' '') = k"
      using q(1,3,4) by (rule py_strip_trailing_spaces)
    with False show ?thesis by (simp only: r1 r2 if_False)
  qed
qed

lemma clean_rating_tagged:
  assumes k: "match_rating_at k = Some k" and p: "CHR ''p'' \<notin> set k"
    and w: "CHR ''w'' \<notin> set k" and tag: "tag = ''[upgrade]'' \<or> tag = ''[downgrade]''"
  shows "py_strip (py_replace ''    [downgrade]'' ''''
           (py_replace ''    [upgrade]'' '''' (k @ replicate n CHR '' '' @ tag)))
       = (if n < 4 then k @ replicate n CHR '' '' @ tag else k)"
  using tag clean_rating_upgrade [OF k w, of n] clean_rating_downgrade [OF k p, of n]
  by (elim disjE) (simp_all only:)

lemma differ_by_char: "c \<in> set a \<Longrightarrow> c \<notin> set b \<Longrightarrow> a \<noteq> b"
  by auto

lemma extract_base_rating_tagged:
  assumes k: "match_rating_at k = Some k" and p: "CHR ''p'' \<notin> set k"
    and w: "CHR ''w'' \<notin> set k" and tag: "tag = ''[upgrade]'' \<or> tag = ''[downgrade]''"
  shows "extract_base_rating (k @ replicate n CHR '' '' @ tag)
       = (if 4 \<le> n \<and> k \<in> set [''SD'', ''RD''] then ''D'' else k)"
proof -
  let ?x = "k @ replicate n CHR '' '' @ tag"
  have br: "CHR '']'' \<in> set ?x" using tag by auto
  have "?x \<noteq> ''N/A''" "?x \<noteq> ''-''" "?x \<noteq> ''''" "?x \<noteq> ''NR''" "?x \<noteq> ''SD''" "?x \<noteq> ''RD''"
    by (rule differ_by_char [OF br], simp)+
  then have present: "\<not> (?x = [] \<or> ?x \<in> set [''N/A'', ''-'', '''', ''NR''])"
    and xsd: "?x \<notin> set [''SD'', ''RD'']"
    by simp_all
  note e = extract_base_rating_cases [OF present, unfolded Let_def clean_rating_tagged [OF k p w tag]]
  have s1: "re_search_rating ?x = Some k"
    using tag_head_stops_match [OF tag, of n]
    by (intro re_search_rating_of_match match_rating_at_followed [OF k]) simp
  have s2: "re_search_rating k = Some k"
    using k by (rule re_search_rating_of_match)
  show ?thesis
  proof (cases "n < 4")
    case True
    then have "\<not> (4 \<le> n \<and> k \<in> set [''SD'', ''RD''])" by simp
    with e True xsd s1 show ?thesis by (simp only: if_True if_False option.case simp_thms)
  next
    case False
    then have n: "4 \<le> n" by simp
    show ?thesis
    proof (cases "k \<in> set [''SD'', ''RD'']")
      case True
      with n have "4 \<le> n \<and> k \<in> set [''SD'', ''RD'']" by simp
      with e False True show ?thesis by (simp only: if_True if_False simp_thms)
    next
      case nsd: False
      then have "\<not> (4 \<le> n \<and> k \<in> set [''SD'', ''RD''])" by simp
      with e False nsd s2 show ?thesis by (simp only: if_True if_False option.case simp_thms)
    qed
  qed
qed

lemma upgrade_modifier_tagged:
  assumes p: "CHR ''p'' \<notin> set k"
  shows "upgrade_modifier (k @ replicate n CHR '' '' @ ''[upgrade]'') = 1 / 3"
    and "upgrade_modifier (k @ replicate n CHR '' '' @ ''[downgrade]'') = - (1 / 3)"
proof -
  have "k @ replicate n CHR '' '' @ ''[upgrade]''
      = (k @ replicate n CHR '' '') @ ''[upgrade]'' @ []" by simp
  then have up: "str_contains ''[upgrade]'' (k @ replicate n CHR '' '' @ ''[upgrade]'')"
    unfolding str_contains_iff by (intro exI)
  then show "upgrade_modifier (k @ replicate n CHR '' '' @ ''[upgrade]'') = 1 / 3"
    by (simp add: upgrade_modifier_def)
  let ?y = "k @ replicate n CHR '' '' @ ''[downgrade]''"
  have "?y = (k @ replicate n CHR '' '') @ ''[downgrade]'' @ []" by simp
  then have down: "str_contains ''[downgrade]'' ?y"
    unfolding str_contains_iff by (intro exI)
  have no1: "\<not> str_contains ''[upgrade]'' ?y"
    using p by (intro str_contains_absent_char [of "CHR ''p''"]) simp_all
  have no2: "\<not> str_contains ''    [upgrade]'' ?y"
    using p by (intro str_contains_absent_char [of "CHR ''p''"]) simp_all
  from down no1 no2 show "upgrade_modifier ?y = - (1 / 3)"
    by (simp add: upgrade_modifier_def)
qed

lemma convert_rating_to_numeric_tagged:
  assumes k: "match_rating_at k = Some k" and p: "CHR ''p'' \<notin> set k"
    and w: "CHR ''w'' \<notin> set k"
  shows "convert_rating_to_numeric (k @ replicate n CHR '' '' @ ''[upgrade]'') rating_dict
       = map_option (\<lambda>v. of_int v + 1 / 3)
           (rating_dict (if 4 \<le> n \<and> k \<in> set [''SD'', ''RD''] then ''D'' else k))"
    and "convert_rating_to_numeric (k @ replicate n CHR '' '' @ ''[downgrade]'') rating_dict
       = map_option (\<lambda>v. of_int v - 1 / 3)
           (rating_dict (if 4 \<le> n \<and> k \<in> set [''SD'', ''RD''] then ''D'' else k))"
proof -
  let ?b = "if 4 \<le> n \<and> k \<in> set [''SD'', ''RD''] then ''D'' else k"
  have "k \<noteq> ''N/A''" using match_rating_at_chars(3) [OF k] by auto
  then have na: "?b \<noteq> ''N/A''" by simp
  have e1: "extract_base_rating (k @ replicate n CHR '' '' @ ''[upgrade]'') = ?b"
    by (rule extract_base_rating_tagged [OF k p w]) simp
  have e2: "extract_base_rating (k @ replicate n CHR '' '' @ ''[downgrade]'') = ?b"
    by (rule extract_base_rating_tagged [OF k p w]) simp
  show "convert_rating_to_numeric (k @ replicate n CHR '' '' @ ''[upgrade]'') rating_dict
       = map_option (\<lambda>v. of_int v + 1 / 3) (rating_dict ?b)"
    unfolding convert_rating_to_numeric_def Let_def e1 upgrade_modifier_tagged(1) [OF p]
    using na by (simp split: option.split)
  show "convert_rating_to_numeric (k @ replicate n CHR '' '' @ ''[downgrade]'') rating_dict
       = map_option (\<lambda>v. of_int v - 1 / 3) (rating_dict ?b)"
    unfolding convert_rating_to_numeric_def Let_def e2 upgrade_modifier_tagged(2) [OF p]
    using na by (simp split: option.split)
qed

lemma tables_keys_match:
  "list_all (\<lambda>(k, v). match_rating_at k = Some k \<and> CHR ''p'' \<notin> set k \<and> CHR ''w'' \<notin> set k
                \<and> k \<notin> set [''SD'', ''RD'']) SP_RATINGS"
  "list_all (\<lambda>(k, v). match_rating_at k = Some k \<and> CHR ''p'' \<notin> set k \<and> CHR ''w'' \<notin> set k
                \<and> k \<notin> set [''SD'', ''RD'']) MOODYS_RATINGS"
  "list_all (\<lambda>(k, v). match_rating_at k = Some k \<and> CHR ''p'' \<notin> set k \<and> CHR ''w'' \<notin> set k
                \<and> k \<notin> set [''SD'', ''RD'']) FITCH_RATINGS"
  by (simp_all add: SP_RATINGS_def MOODYS_RATINGS_def FITCH_RATINGS_def match_rating_at_def
        is_ascii_letter_def is_sign_def is_digit123_def Let_def numeral_3_eq_3)

lemma default_indicators_match:
  "match_rating_at ''SD'' = Some ''SD''" "match_rating_at ''RD'' = Some ''RD''"
  by (simp_all add: match_rating_at_def is_ascii_letter_def is_sign_def is_digit123_def
        Let_def numeral_3_eq_3)

lemma tables_key_D:
  "map_of SP_RATINGS ''D'' = Some 1" "map_of FITCH_RATINGS ''D'' = Some 1"
  by (simp_all add: SP_RATINGS_def FITCH_RATINGS_def)

text \<open>
  Where the tag may follow any number of spaces: for each of the three tables, every key
  \<open>k\<close> of the table and every number \<open>n\<close> of spaces, zero included, the text \<open>k\<close>,
  \<open>n\<close> spaces, \<open>[upgrade]\<close> has the score of \<open>k\<close> plus 1/3, and with \<open>[downgrade]\<close>
  the score of \<open>k\<close> minus 1/3. For the default indicators \<open>SD\<close> and \<open>RD\<close> this holds
  under S&P and Fitch when four spaces or more stand before the bracket, and with fewer
  there is no score.
\<close>

lemma outlook_tag_after_spaces:
  assumes T: "T \<in> {SP_RATINGS, MOODYS_RATINGS, FITCH_RATINGS}"
    and key: "map_of T k = Some v"
    and indicator: "d \<in> {''SD'', ''RD''}"
  shows "convert_rating_to_numeric (k @ replicate n CHR '' '' @ ''[upgrade]'') (map_of T)
           = Some (of_int v + 1 / 3)
       \<and> convert_rating_to_numeric (k @ replicate n CHR '' '' @ ''[downgrade]'') (map_of T)
           = Some (of_int v - 1 / 3)
       \<and> (4 \<le> m \<longrightarrow>
            convert_rating_to_numeric (d @ replicate m CHR '' '' @ ''[upgrade]'')
              (map_of SP_RATINGS) = Some (1 + 1 / 3)
          \<and> convert_rating_to_numeric (d @ replicate m CHR '' '' @ ''[downgrade]'')
              (map_of SP_RATINGS) = Some (1 - 1 / 3)
          \<and> convert_rating_to_numeric (d @ replicate m CHR '' '' @ ''[upgrade]'')
              (map_of FITCH_RATINGS) = Some (1 + 1 / 3)
          \<and> convert_rating_to_numeric (d @ replicate m CHR '' '' @ ''[downgrade]'')
              (map_of FITCH_RATINGS) = Some (1 - 1 / 3))
       \<and> (m < 4 \<longrightarrow>
            convert_rating_to_numeric (d @ replicate m CHR '' '' @ ''[upgrade]'')
              (map_of SP_RATINGS) = None
          \<and> convert_rating_to_numeric (d @ replicate m CHR '' '' @ ''[downgrade]'')
              (map_of SP_RATINGS) = None
          \<and> convert_rating_to_numeric (d @ replicate m CHR '' '' @ ''[upgrade]'')
              (map_of FITCH_RATINGS) = None
          \<and> convert_rating_to_numeric (d @ replicate m CHR '' '' @ ''[downgrade]'')
              (map_of FITCH_RATINGS) = None)"
proof -
  have "(k, v) \<in> set T" using key by (rule map_of_SomeD)
  with T tables_keys_match
  have kp: "match_rating_at k = Some k" "CHR ''p'' \<notin> set k" "CHR ''w'' \<notin> set k"
    and kn: "k \<notin> set [''SD'', ''RD'']"
    by (auto simp: list_all_iff)
  have dp: "match_rating_at d = Some d" "CHR ''p'' \<notin> set d" "CHR ''w'' \<notin> set d"
    and dd: "d \<in> set [''SD'', ''RD'']"
    using indicator default_indicators_match by auto
  from kn have kb: "(if 4 \<le> n \<and> k \<in> set [''SD'', ''RD''] then ''D'' else k) = k"
    by simp
  note ck = convert_rating_to_numeric_tagged [OF kp, of n "map_of T", unfolded kb key]
  have many: "convert_rating_to_numeric (d @ replicate m CHR '' '' @ ''[upgrade]'')
              (map_of SP_RATINGS) = Some (1 + 1 / 3)
          \<and> convert_rating_to_numeric (d @ replicate m CHR '' '' @ ''[downgrade]'')
              (map_of SP_RATINGS) = Some (1 - 1 / 3)
          \<and> convert_rating_to_numeric (d @ replicate m CHR '' '' @ ''[upgrade]'')
              (map_of FITCH_RATINGS) = Some (1 + 1 / 3)
          \<and> convert_rating_to_numeric (d @ replicate m CHR '' '' @ ''[downgrade]'')
              (map_of FITCH_RATINGS) = Some (1 - 1 / 3)"
    if four: "4 \<le> m"
  proof -
    from dd four have db: "(if 4 \<le> m \<and> d \<in> set [''SD'', ''RD''] then ''D'' else d) = ''D''"
      by simp
    note cs = convert_rating_to_numeric_tagged [OF dp, of m "map_of SP_RATINGS",
        unfolded db tables_key_D]
    note cf = convert_rating_to_numeric_tagged [OF dp, of m "map_of FITCH_RATINGS",
        unfolded db tables_key_D]
    show ?thesis by (simp add: cs cf)
  qed
  have few: "convert_rating_to_numeric (d @ replicate m CHR '' '' @ ''[upgrade]'')
              (map_of SP_RATINGS) = None
          \<and> convert_rating_to_numeric (d @ replicate m CHR '' '' @ ''[downgrade]'')
              (map_of SP_RATINGS) = None
          \<and> convert_rating_to_numeric (d @ replicate m CHR '' '' @ ''[upgrade]'')
              (map_of FITCH_RATINGS) = None
          \<and> convert_rating_to_numeric (d @ replicate m CHR '' '' @ ''[downgrade]'')
              (map_of FITCH_RATINGS) = None"
    if less: "m < 4"
  proof -
    from less have db: "(if 4 \<le> m \<and> d \<in> set [''SD'', ''RD''] then ''D'' else d) = d"
      by simp
    have none: "map_of SP_RATINGS d = None" "map_of FITCH_RATINGS d = None"
      using indicator by (auto simp: tables_absent_keys)
    note cs = convert_rating_to_numeric_tagged [OF dp, of m "map_of SP_RATINGS",
        unfolded db none]
    note cf = convert_rating_to_numeric_tagged [OF dp, of m "map_of FITCH_RATINGS",
        unfolded db none]
    show ?thesis by (simp add: cs cf)
  qed
  from ck many few show ?thesis by simp
qed

text \<open>
  Claim C4, at the text \<open>SD[upgrade]\<close> under the S&P table. \<open>convert_rating_to_numeric\<close>
  finds the tag without spaces (the modifier is 1/3), but \<open>extract_base_rating\<close> removes
  only the tag with its four spaces before it compares with \<open>SD\<close>; the pattern then
  extracts \<open>SD\<close>, which is no key, and there is no score. The same indicator with four
  spaces has the score 1 + 1/3, and a key of the table followed by the tag without spaces
  has its score plus 1/3.
\<close>

theorem default_indicator_bare_tag_no_score:
  "upgrade_modifier ''SD[upgrade]'' = 1 / 3
   \<and> extract_base_rating ''SD[upgrade]'' = ''SD''
   \<and> convert_rating_to_numeric ''SD[upgrade]'' (map_of SP_RATINGS) = None
   \<and> convert_rating_to_numeric ''SD    [upgrade]'' (map_of SP_RATINGS) = Some (1 + 1 / 3)
   \<and> convert_rating_to_numeric ''BBB+[upgrade]'' (map_of SP_RATINGS) = Some (15 + 1 / 3)"
  by (simp add: normalizer_defs SP_RATINGS_def Let_def numeral_3_eq_3)

section \<open>Properties of the average rating\<close>

text \<open>
  Claim C9. When the three numeric ratings of a row are all missing, its average rating
  is missing too (it is not 0), and \<open>categorize_by_average_rating\<close> tests for the
  missing value before any comparison and answers \<open>No Rating\<close>.
\<close>

theorem average_of_no_ratings_absent:
  "sp_numeric = None \<Longrightarrow> moodys_numeric = None \<Longrightarrow> fitch_numeric = None \<Longrightarrow>
     average_rating round2 sp_numeric moodys_numeric fitch_numeric = None
     \<and> average_rating round2 sp_numeric moodys_numeric fitch_numeric \<noteq> Some 0
     \<and> categorize_by_average_rating
           (average_rating round2 sp_numeric moodys_numeric fitch_numeric) = ''No Rating''"
  by (simp add: average_rating_def mean_skipna_def 
        categorize_by_average_rating_def)

theorem average_of_no_ratings_absent_witness:
  "average_rating (\<lambda>r. r) None None None = None
   \<and> categorize_by_average_rating (average_rating (\<lambda>r. r) None None None) = ''No Rating''"
  using average_of_no_ratings_absent [of None None None "\<lambda>r. r"] by auto

section \<open>Properties of the floating-point model\<close>

subsection \<open>Evaluation on numerals\<close>

text \<open>
  The rounding is unfolded on numerals only, so that a float operation on a bound variable
  stays as it is.
\<close>

lemma floor_rat_numeral: "\<lfloor>numeral a / numeral b :: rat\<rfloor> = numeral a div numeral b"
  using floor_divide_of_int_eq [of "numeral a" "numeral b", where ?'a = rat] by simp

lemma ceiling_rat_numeral: "\<lceil>numeral a / numeral b :: rat\<rceil> = - (- numeral a div numeral b)"
  using ceiling_divide_eq_div [of "numeral a" "numeral b", where ?'a = rat] by simp

lemma bitlen_numeral: "bitlen (numeral n) = bitlen (numeral n div 2) + 1"
  by (subst compute_bitlen) simp

lemma bitlen_one: "bitlen 1 = 1"
  by (subst compute_bitlen) simp

lemma round_double_numeral:
  "round_double (numeral a / numeral b) = round_pos (numeral a / numeral b)"
  "round_double (1 / numeral b) = round_pos (1 / numeral b)"
  "round_double (numeral a) = round_pos (numeral a)"
  "round_double 1 = round_pos 1"
  "round_double 0 = 0"
  "round_double (- (numeral a / numeral b)) = - round_pos (numeral a / numeral b)"
  "round_double (- (1 / numeral b)) = - round_pos (1 / numeral b)"
  "round_double (- numeral a) = - round_pos (numeral a)"
  "round_double (- 1) = - round_pos 1"
  by (simp_all add: round_double_def)

lemmas round_pos_numeral =
  round_pos_def [of "numeral a / numeral b"] round_pos_def [of "1 / numeral b"]
  round_pos_def [of "numeral a"] round_pos_def [of 1] for a b

lemmas double_eval = fadd_def fsub_def fmul_def round_double_numeral round_pos_numeral
  round_half_even_def binade_def scale_pow2_def Let_def bitlen_numeral bitlen_one
  floor_rat_numeral ceiling_rat_numeral

subsection \<open>The rounding error\<close>







section \<open>Properties of the label placement\<close>

subsection \<open>The constants\<close>

lemma float_constants:
  "full_min_distance = 3602879701896397 / 4503599627370496"
  "ig_min_distance = 5404319552844595 / 9007199254740992"
  "round_double 13.8 = 3884354678607053 / 281474976710656"
  "round_double 22.5 = 45 / 2"
  "round_double 1.5 = 3 / 2"
  by (simp_all add: full_min_distance_def ig_min_distance_def double_eval)


lemmas placement_eval = create_full_plot_labels_def create_investment_grade_plot_labels_def
  adjust_ig_def ig_candidates_def ig_in_bounds_def ig_overlap_def full_overlap_def
  float_constants double_eval zero_enat_def [symmetric]

subsection \<open>The loop appends one position per tuple\<close>

lemma place_labels_append:
  "place_labels adjust dx used (items @ items') =
     place_labels adjust dx (place_labels adjust dx used items) items'"
  by (induction items arbitrary: used) (auto simp: Let_def)

lemma length_place_labels:
  "length (place_labels adjust dx used items) = length used + length items"
  by (induction items arbitrary: used) (auto simp: Let_def)

lemma place_labels_keeps_used:
  "take (length used) (place_labels adjust dx used items) = used"
proof (induction items arbitrary: used)
  case Nil
  then show ?case by simp
next
  case (Cons item items)
  obtain x y ctry code where item: "item = (x, y, ctry, code)"
    by (cases item) auto
  let ?used' = "used @ [(fadd x dx, adjust (fadd x dx) y used)]"
  have "take (length ?used') (place_labels adjust dx ?used' items) = ?used'"
    by (rule Cons.IH)
  then have "take (length used) (take (length ?used') (place_labels adjust dx ?used' items))
      = take (length used) ?used'"
    by simp
  then show ?case
    by (simp add: item Let_def min_def)
qed

lemma map_fst_place_labels:
  "map fst (place_labels adjust dx used items) =
     map fst used @ map (\<lambda>item. fadd (fst item) dx) items"
  by (induction items arbitrary: used) (auto simp: Let_def)

lemma place_labels_nth:
  assumes i: "i < length items"
  shows "place_labels adjust dx [] items ! i =
           (fadd (fst (items ! i)) dx,
            adjust (fadd (fst (items ! i)) dx) (fst (snd (items ! i)))
              (take i (place_labels adjust dx [] items)))"
proof -
  obtain x y ctry code where item: "items ! i = (x, y, ctry, code)"
    by (cases "items ! i") auto
  let ?before = "place_labels adjust dx [] (take i items)"
  let ?pos = "(fadd x dx, adjust (fadd x dx) y ?before)"
  have len: "length ?before = i"
    using i by (simp add: length_place_labels)
  have split: "items = take i items @ (x, y, ctry, code) # drop (Suc i) items"
    using i item by (metis id_take_nth_drop)
  have "place_labels adjust dx [] items =
          place_labels adjust dx (?before @ [?pos]) (drop (Suc i) items)"
    by (subst split, simp add: place_labels_append Let_def)
  moreover have "take (Suc i) (place_labels adjust dx (?before @ [?pos]) (drop (Suc i) items))
      = ?before @ [?pos]"
    using place_labels_keeps_used [of "?before @ [?pos]" adjust dx "drop (Suc i) items"] len
    by simp
  ultimately have t: "take (Suc i) (place_labels adjust dx [] items) = ?before @ [?pos]"
    by simp
  have ilen: "i < length (place_labels adjust dx [] items)"
    using i by (simp add: length_place_labels)
  from t have "take i (take (Suc i) (place_labels adjust dx [] items)) = take i (?before @ [?pos])"
    by simp
  then have before: "take i (place_labels adjust dx [] items) = ?before"
    using len by (simp add: min_def)
  from t have "take (Suc i) (place_labels adjust dx [] items) ! i = (?before @ [?pos]) ! i"
    by simp
  then have "place_labels adjust dx [] items ! i = ?pos"
    using len by (simp add: nth_append)
  then show ?thesis
    by (simp add: before item)
qed

text \<open>
  Claim C5. Both functions return as many positions as there are points, and the position
  at index \<open>i\<close> belongs to the point at index \<open>i\<close> of the sorted sequence: it is that
  point's \<open>x\<close> plus the offset (the float sum), and the \<open>ly\<close> that the overlap check
  returns for it against the positions placed before. The loop has no failing step: every
  point gets a position, whatever the check finds.
\<close>

theorem resolver_one_position_per_point:
  "length (create_full_plot_labels label_dx country_data) = length country_data
   \<and> length (create_investment_grade_plot_labels label_dx country_data) = length country_data
   \<and> (\<forall>i < length country_data.
        let sorted_data = sort_key (\<lambda>item. fst item) country_data;
            placed = create_full_plot_labels label_dx country_data;
            (x, y, ctry, code) = sorted_data ! i
        in placed ! i = (fadd x label_dx, adjust_full (fadd x label_dx) y (take i placed)))
   \<and> (\<forall>i < length country_data.
        let sorted_data = sort_key (\<lambda>item. (fst item, fst (snd item))) country_data;
            placed = create_investment_grade_plot_labels label_dx country_data;
            (x, y, ctry, code) = sorted_data ! i
        in placed ! i = (fadd x label_dx, adjust_ig (fadd x label_dx) y (take i placed)))"
  by (auto simp: create_full_plot_labels_def create_investment_grade_plot_labels_def
        length_place_labels place_labels_nth Let_def split: prod.splits)

theorem resolver_one_position_per_point_witness:
  "(2::nat) < length [(0, 15, ''IT'', ''it''), (0, 14.25, ''ES'', ''es''), (0::rat, 14.25 :: rat, ''PT'', ''pt'')]
   \<and> create_full_plot_labels 8
         [(0, 15, ''IT'', ''it''), (0, 14.25, ''ES'', ''es''), (0, 14.25, ''PT'', ''pt'')] ! 2
       = (8, adjust_full 8 14.25 [(8, 15), (8, round_double 14.2)])"
  using resolver_one_position_per_point
          [of 8 "[(0, 15, ''IT'', ''it''), (0, 14.25, ''ES'', ''es''), (0, 14.25, ''PT'', ''pt'')]"]
  by (simp add: placement_eval)

text \<open>
  Claim C10. In both functions the first component of every placed position is the
  \<open>x\<close> of its point plus \<open>label_dx\<close>, as the float addition gives it; the overlap check
  only ever changes \<open>ly\<close>.
\<close>

theorem label_x_is_point_x_plus_offset:
  "map fst (create_full_plot_labels label_dx country_data) =
     map (\<lambda>item. fadd (fst item) label_dx) (sort_key (\<lambda>item. fst item) country_data)
   \<and> map fst (create_investment_grade_plot_labels label_dx country_data) =
     map (\<lambda>item. fadd (fst item) label_dx)
       (sort_key (\<lambda>item. (fst item, fst (snd item))) country_data)"
  by (simp add: create_full_plot_labels_def create_investment_grade_plot_labels_def
        map_fst_place_labels)

subsection \<open>The overlap check of \<open>create_investment_grade_plot\<close>\<close>

lemma adjust_ig_scan_find:
  "adjust_ig_scan lx ly used rest =
     (case find (\<lambda>(ux, uy). \<bar>fsub lx ux\<bar> < 40 \<and> \<bar>fsub ly uy\<bar> < ig_min_distance) rest of
        None \<Rightarrow> ly
      | Some (ux, uy) \<Rightarrow> fst (best_candidate lx used (ig_candidates uy) (ly, \<infinity>)))"
  by (induction lx ly used rest rule: adjust_ig_scan.induct) simp_all

lemma best_candidate_invariant:
  "best_candidate lx used cs (b, m) = (b', m') \<Longrightarrow>
     m' \<le> m
     \<and> (\<forall>c \<in> set cs. ig_in_bounds c \<longrightarrow> m' \<le> enat (ig_overlap lx c used))
     \<and> ((b', m') = (b, m)
         \<or> (b' \<in> set cs \<and> ig_in_bounds b' \<and> m' = enat (ig_overlap lx b' used)))"
proof (induction cs arbitrary: b m)
  case Nil
  then show ?case by simp
next
  case (Cons c cs)
  show ?case
  proof (cases "ig_in_bounds c \<and> enat (ig_overlap lx c used) < m")
    case True
    with Cons.prems have "best_candidate lx used cs (c, enat (ig_overlap lx c used)) = (b', m')"
      by (simp add: Let_def)
    from Cons.IH [OF this]
    have le: "m' \<le> enat (ig_overlap lx c used)"
      and rest: "\<forall>c \<in> set cs. ig_in_bounds c \<longrightarrow> m' \<le> enat (ig_overlap lx c used)"
      and res: "(b', m') = (c, enat (ig_overlap lx c used))
         \<or> (b' \<in> set cs \<and> ig_in_bounds b' \<and> m' = enat (ig_overlap lx b' used))"
      by blast+
    from le True have "m' \<le> m" by (meson order.strict_implies_order order_trans)
    moreover from le rest
    have "\<forall>c' \<in> set (c # cs). ig_in_bounds c' \<longrightarrow> m' \<le> enat (ig_overlap lx c' used)"
      by simp
    moreover from res True
    have "(b', m') = (b, m)
         \<or> (b' \<in> set (c # cs) \<and> ig_in_bounds b' \<and> m' = enat (ig_overlap lx b' used))"
      by auto
    ultimately show ?thesis by blast
  next
    case False
    with Cons.prems have "best_candidate lx used cs (b, m) = (b', m')"
      by (auto simp: Let_def split: if_splits)
    from Cons.IH [OF this]
    have le: "m' \<le> m"
      and rest: "\<forall>c \<in> set cs. ig_in_bounds c \<longrightarrow> m' \<le> enat (ig_overlap lx c used)"
      and res: "(b', m') = (b, m)
         \<or> (b' \<in> set cs \<and> ig_in_bounds b' \<and> m' = enat (ig_overlap lx b' used))"
      by blast+
    from le False have "ig_in_bounds c \<longrightarrow> m' \<le> enat (ig_overlap lx c used)"
      by (auto simp: not_less dest: order_trans)
    with rest
    have "\<forall>c' \<in> set (c # cs). ig_in_bounds c' \<longrightarrow> m' \<le> enat (ig_overlap lx c' used)"
      by simp
    moreover from res
    have "(b', m') = (b, m)
         \<or> (b' \<in> set (c # cs) \<and> ig_in_bounds b' \<and> m' = enat (ig_overlap lx b' used))"
      by auto
    ultimately show ?thesis using le by blast
  qed
qed

lemma best_candidate_none_in_bounds:
  "\<forall>c \<in> set cs. \<not> ig_in_bounds c \<Longrightarrow> best_candidate lx used cs st = st"
  by (induction cs arbitrary: st) (auto split: prod.splits)

lemma best_candidate_fewest:
  assumes "filter ig_in_bounds cs \<noteq> []"
  shows "fst (best_candidate lx used cs (ly, \<infinity>)) \<in> set (filter ig_in_bounds cs)
     \<and> (\<forall>c \<in> set (filter ig_in_bounds cs).
           ig_overlap lx (fst (best_candidate lx used cs (ly, \<infinity>))) used \<le> ig_overlap lx c used)"
proof -
  obtain b' m' where r: "best_candidate lx used cs (ly, \<infinity>) = (b', m')"
    by (cases "best_candidate lx used cs (ly, \<infinity>)") auto
  note inv = best_candidate_invariant [OF r]
  from assms obtain c0 where c0: "c0 \<in> set cs" "ig_in_bounds c0"
    by (auto simp: filter_empty_conv)
  with inv have "m' \<le> enat (ig_overlap lx c0 used)" by blast
  then have "m' \<noteq> \<infinity>" by (cases m') auto
  with inv have b': "b' \<in> set cs" "ig_in_bounds b'" "m' = enat (ig_overlap lx b' used)"
    by auto
  with inv have "\<forall>c \<in> set cs. ig_in_bounds c \<longrightarrow> ig_overlap lx b' used \<le> ig_overlap lx c used"
    by auto
  with b' show ?thesis by (simp add: r)
qed

subsection \<open>Two points at the same place\<close>









subsection \<open>The overlap check of \<open>create_full_plot\<close>\<close>

lemma adjust_full_no_collision:
  "find (\<lambda>(ux, uy). \<bar>fsub lx ux\<bar> < 50 \<and> \<bar>fsub ly uy\<bar> < full_min_distance) used = None \<Longrightarrow>
     adjust_full lx ly used = ly"
  by (induction used) (auto split: if_splits)

lemma adjust_full_first_collision:
  "find (\<lambda>(ux, uy). \<bar>fsub lx ux\<bar> < 50 \<and> \<bar>fsub ly uy\<bar> < full_min_distance) used
       = Some (used_x, used_y) \<Longrightarrow>
     adjust_full lx ly used =
       adjust_full lx
         (if ly \<ge> used_y then fadd used_y full_min_distance else fsub used_y full_min_distance)
         (tl (dropWhile
                (\<lambda>(ux, uy). \<not> (\<bar>fsub lx ux\<bar> < 50 \<and> \<bar>fsub ly uy\<bar> < full_min_distance))
                used))"
proof (induction used)
  case Nil
  then show ?case by simp
next
  case (Cons p used)
  obtain a b where p: "p = (a, b)" by (cases p) auto
  show ?case
  proof (cases "\<bar>fsub lx a\<bar> < 50 \<and> \<bar>fsub ly b\<bar> < full_min_distance")
    case True
    with Cons.prems p have "used_x = a" "used_y = b" by simp_all
    with True p show ?thesis by simp
  next
    case False
    with Cons.prems p
    have "find (\<lambda>(ux, uy). \<bar>fsub lx ux\<bar> < 50 \<and> \<bar>fsub ly uy\<bar> < full_min_distance) used
        = Some (used_x, used_y)"
      by simp
    from Cons.IH [OF this] False p show ?thesis by auto
  qed
qed

lemma adjust_full_result:
  "adjust_full lx ly used = ly
   \<or> (\<exists>(ux, uy) \<in> set used. \<bar>fsub lx ux\<bar> < 50
        \<and> (adjust_full lx ly used = fadd uy full_min_distance
            \<or> adjust_full lx ly used = fsub uy full_min_distance))"
proof (induction lx ly used rule: adjust_full.induct)
  case (1 lx ly)
  then show ?case by simp
next
  case (2 lx ly used_x used_y rest)
  show ?case
  proof (cases "\<bar>fsub lx used_x\<bar> < 50 \<and> \<bar>fsub ly used_y\<bar> < full_min_distance")
    case False
    with 2 show ?thesis by (auto split: if_splits)
  next
    case True
    show ?thesis
    proof (cases "ly \<ge> used_y")
      case up: True
      with True 2(1)
      have "adjust_full lx (fadd used_y full_min_distance) rest = fadd used_y full_min_distance
        \<or> (\<exists>(ux, uy) \<in> set rest. \<bar>fsub lx ux\<bar> < 50
            \<and> (adjust_full lx (fadd used_y full_min_distance) rest = fadd uy full_min_distance
              \<or> adjust_full lx (fadd used_y full_min_distance) rest = fsub uy full_min_distance))"
        by simp
      with True up show ?thesis by auto
    next
      case down: False
      with True 2(2)
      have "adjust_full lx (fsub used_y full_min_distance) rest = fsub used_y full_min_distance
        \<or> (\<exists>(ux, uy) \<in> set rest. \<bar>fsub lx ux\<bar> < 50
            \<and> (adjust_full lx (fsub used_y full_min_distance) rest = fadd uy full_min_distance
              \<or> adjust_full lx (fsub used_y full_min_distance) rest = fsub uy full_min_distance))"
        by simp
      with True down show ?thesis by auto
    qed
  qed
qed

text \<open>
  Claim C7, as the code has it. In \<open>create_investment_grade_plot\<close> the first used
  position that is within 40 horizontally and less than the minimum distance 0.6
  vertically decides: of the four positions one and one and a half minimum distances
  above and below it, those outside 13.8 to 22.5 are discarded, and the new \<open>ly\<close> is
  one of the remaining with the fewest collisions, a collision being a used position
  within 40 horizontally and less than 0.6 vertically from the candidate; when all four
  are outside, or no used position is that close, \<open>ly\<close> stays. In \<open>create_full_plot\<close>
  nothing is counted and no bounds are checked: when no used position is within 50
  horizontally and less than 0.8 vertically from \<open>ly\<close>, \<open>ly\<close> stays; otherwise the first
  such position moves \<open>ly\<close> to the minimum distance above it (when \<open>ly\<close> is not below
  it) or below it, and the positions after it are checked in the same way against the
  moved \<open>ly\<close>. So the result is the point's own \<open>y\<close> or lies the minimum distance above
  or below a used position within 50 horizontally.
\<close>

theorem displacement_rule_per_variant:
  "(find (\<lambda>(ux, uy). \<bar>fsub lx ux\<bar> < 40 \<and> \<bar>fsub ly uy\<bar> < ig_min_distance) clear = None
      \<longrightarrow> adjust_ig lx ly clear = ly)
   \<and> (find (\<lambda>(ux, uy). \<bar>fsub lx ux\<bar> < 40 \<and> \<bar>fsub ly uy\<bar> < ig_min_distance) used
         = Some (used_x, used_y)
      \<longrightarrow> (let bounded = filter ig_in_bounds
                           [fadd used_y ig_min_distance, fsub used_y ig_min_distance,
                            fadd used_y (fmul ig_min_distance (round_double 1.5)),
                            fsub used_y (fmul ig_min_distance (round_double 1.5))];
               collisions = (\<lambda>candidate. length (filter
                  (\<lambda>(ux, uy). \<bar>fsub lx ux\<bar> < 40 \<and> \<bar>fsub candidate uy\<bar> < ig_min_distance) used));
               new_ly = adjust_ig lx ly used
           in (bounded = [] \<longrightarrow> new_ly = ly)
              \<and> (bounded \<noteq> [] \<longrightarrow>
                   new_ly \<in> set bounded
                   \<and> (\<forall>c \<in> set bounded. collisions new_ly \<le> collisions c))))
   \<and> (find (\<lambda>(ux, uy). \<bar>fsub lx ux\<bar> < 50 \<and> \<bar>fsub ly uy\<bar> < full_min_distance) clear = None
      \<longrightarrow> adjust_full lx ly clear = ly)
   \<and> (find (\<lambda>(ux, uy). \<bar>fsub lx ux\<bar> < 50 \<and> \<bar>fsub ly uy\<bar> < full_min_distance) used
         = Some (used_x, used_y)
      \<longrightarrow> adjust_full lx ly used =
            adjust_full lx
              (if ly \<ge> used_y then fadd used_y full_min_distance
               else fsub used_y full_min_distance)
              (tl (dropWhile
                     (\<lambda>(ux, uy). \<not> (\<bar>fsub lx ux\<bar> < 50 \<and> \<bar>fsub ly uy\<bar> < full_min_distance))
                     used)))
   \<and> (adjust_full lx ly used = ly
      \<or> (\<exists>(ux, uy) \<in> set used. \<bar>fsub lx ux\<bar> < 50
           \<and> (adjust_full lx ly used = fadd uy full_min_distance
               \<or> adjust_full lx ly used = fsub uy full_min_distance)))"
proof -
  have a: "find (\<lambda>(ux, uy). \<bar>fsub lx ux\<bar> < 40 \<and> \<bar>fsub ly uy\<bar> < ig_min_distance) clear = None
      \<longrightarrow> adjust_ig lx ly clear = ly"
    by (simp add: adjust_ig_def adjust_ig_scan_find)
  have b: "find (\<lambda>(ux, uy). \<bar>fsub lx ux\<bar> < 40 \<and> \<bar>fsub ly uy\<bar> < ig_min_distance) used
         = Some (used_x, used_y)
      \<longrightarrow> (let bounded = filter ig_in_bounds
                           [fadd used_y ig_min_distance, fsub used_y ig_min_distance,
                            fadd used_y (fmul ig_min_distance (round_double 1.5)),
                            fsub used_y (fmul ig_min_distance (round_double 1.5))];
               collisions = (\<lambda>candidate. length (filter
                  (\<lambda>(ux, uy). \<bar>fsub lx ux\<bar> < 40 \<and> \<bar>fsub candidate uy\<bar> < ig_min_distance) used));
               new_ly = adjust_ig lx ly used
           in (bounded = [] \<longrightarrow> new_ly = ly)
              \<and> (bounded \<noteq> [] \<longrightarrow>
                   new_ly \<in> set bounded
                   \<and> (\<forall>c \<in> set bounded. collisions new_ly \<le> collisions c)))"
  proof
    assume f: "find (\<lambda>(ux, uy). \<bar>fsub lx ux\<bar> < 40 \<and> \<bar>fsub ly uy\<bar> < ig_min_distance) used
        = Some (used_x, used_y)"
    then have r: "adjust_ig lx ly used
        = fst (best_candidate lx used (ig_candidates used_y) (ly, \<infinity>))"
      by (simp add: adjust_ig_def adjust_ig_scan_find)
    have none: "filter ig_in_bounds (ig_candidates used_y) = [] \<Longrightarrow>
        fst (best_candidate lx used (ig_candidates used_y) (ly, \<infinity>)) = ly"
      by (simp add: best_candidate_none_in_bounds filter_empty_conv)
    show "let bounded = filter ig_in_bounds
                           [fadd used_y ig_min_distance, fsub used_y ig_min_distance,
                            fadd used_y (fmul ig_min_distance (round_double 1.5)),
                            fsub used_y (fmul ig_min_distance (round_double 1.5))];
               collisions = (\<lambda>candidate. length (filter
                  (\<lambda>(ux, uy). \<bar>fsub lx ux\<bar> < 40 \<and> \<bar>fsub candidate uy\<bar> < ig_min_distance) used));
               new_ly = adjust_ig lx ly used
           in (bounded = [] \<longrightarrow> new_ly = ly)
              \<and> (bounded \<noteq> [] \<longrightarrow>
                   new_ly \<in> set bounded
                   \<and> (\<forall>c \<in> set bounded. collisions new_ly \<le> collisions c))"
      unfolding Let_def r ig_candidates_def [symmetric] ig_overlap_def [symmetric]
      using none best_candidate_fewest [of "ig_candidates used_y" lx used ly]
      by blast
  qed
  show ?thesis
    using a b adjust_full_no_collision [of lx ly clear]
      adjust_full_first_collision [of lx ly used used_x used_y]
      adjust_full_result [of lx ly used]
    by blast
qed

theorem displacement_rule_per_variant_witness:
  "find (\<lambda>(ux, uy). \<bar>fsub 8 ux\<bar> < 40 \<and> \<bar>fsub 15 uy\<bar> < ig_min_distance) [(8::rat, 20::rat)] = None
   \<and> find (\<lambda>(ux, uy). \<bar>fsub 8 ux\<bar> < 50 \<and> \<bar>fsub 15 uy\<bar> < full_min_distance) [(8::rat, 20::rat)] = None
   \<and> find (\<lambda>(ux, uy). \<bar>fsub 8 ux\<bar> < 40 \<and> \<bar>fsub 15 uy\<bar> < ig_min_distance)
         [(8::rat, 14.5::rat), (8, 15)] = Some (8, 14.5)
   \<and> find (\<lambda>(ux, uy). \<bar>fsub 8 ux\<bar> < 50 \<and> \<bar>fsub 15 uy\<bar> < full_min_distance)
         [(8::rat, 14.5::rat), (8, 15)] = Some (8, 14.5)
   \<and> adjust_ig 8 15 [(8, 20)] = 15
   \<and> adjust_full 8 15 [(8, 20)] = 15
   \<and> adjust_ig 8 15 [(8, 14.5), (8, 15)] = round_double 13.9
   \<and> ig_overlap 8 (round_double 13.9) [(8, 14.5), (8, 15)] = 1
   \<and> ig_overlap 8 (round_double 15.1) [(8, 14.5), (8, 15)] = 2
   \<and> adjust_full 8 15 [(8, 14.5), (8, 15)] = round_double 15.8"
  using displacement_rule_per_variant [of 8 15 "[(8, 20)]" "[(8, 14.5), (8, 15)]" 8 "14.5"]
  by (simp add: placement_eval)

text \<open>
  Claim C7 as stated, for \<open>create_full_plot\<close>: three countries with the same spread and
  the ratings 15, 14.25 and 14.25. The third label is moved below the first (to 14.2,
  where the second already is) and then above the second, to 15, exactly onto the first
  label: one collision, although the position 0.8 below the second label has none.
\<close>

theorem full_plot_ignores_collision_count_counterexample:
  "create_full_plot_labels 8
       [(0, 15, ''IT'', ''it''), (0, 14.25, ''ES'', ''es''), (0, 14.25, ''PT'', ''pt'')]
     = [(8, 15), (8, round_double 14.2), (8, 15)]
   \<and> adjust_full 8 14.25 [(8, 15), (8, round_double 14.2)] = 15
   \<and> full_overlap 8 15 [(8, 15), (8, round_double 14.2)] = 1
   \<and> full_overlap 8 (fsub (round_double 14.2) full_min_distance) [(8, 15), (8, round_double 14.2)] = 0"
  by (simp add: placement_eval)

end
